theory Spec2Isabelle
  imports Complex_Main "HOL-Library.AList"
begin

section \<open>SecurityManager: failed logins, lockouts, scanner and honeypot records\<close>

text \<open>
  The class \<open>SecurityManager\<close> of \<open>t.py\<close> keeps four dictionaries keyed by the client
  IP. Every method reads the clock once (\<open>time.time()\<close>); the value read is the
  argument \<open>now\<close> of the model, a real number of seconds. The dictionaries are maps;
  a method that mutates the object returns the new object.
\<close>

record entry =
  path :: string
  time :: real

record security_manager =
  failed_attempts :: "string \<rightharpoonup> real list"
  blocked_ips :: "string \<rightharpoonup> real"
  scanner_detection :: "string \<rightharpoonup> entry list"
  honeypot_hits :: "string \<rightharpoonup> entry list"

text \<open>The two attributes set once by \<open>__init__\<close> and never assigned again.\<close>

definition max_attempts :: nat where
  "max_attempts = 5"

definition block_time :: real where
  "block_time = 300"

text \<open>\<open>d[ip]\<close> after \<open>if ip not in d: d[ip] = []\<close>.\<close>

definition setdefault_list :: "(string \<rightharpoonup> 'a list) \<Rightarrow> string \<Rightarrow> 'a list" where
  "setdefault_list d ip = (case d ip of None \<Rightarrow> [] | Some xs \<Rightarrow> xs)"

definition is_ip_blocked :: "security_manager \<Rightarrow> string \<Rightarrow> real \<Rightarrow> bool \<times> security_manager" where
  "is_ip_blocked sm ip now =
     (case blocked_ips sm ip of
        None \<Rightarrow> (False, sm)
      | Some expiry \<Rightarrow>
          if now < expiry then (True, sm)
          else (False, sm\<lparr>blocked_ips := (blocked_ips sm)(ip := None)\<rparr>))"

definition record_failed_attempt :: "security_manager \<Rightarrow> string \<Rightarrow> real \<Rightarrow> security_manager" where
  "record_failed_attempt sm ip now =
     (let kept = filter (\<lambda>t. now - t < 3600) (setdefault_list (failed_attempts sm) ip);
          attempts = kept @ [now];
          sm1 = sm\<lparr>failed_attempts := (failed_attempts sm)(ip \<mapsto> attempts)\<rparr>
      in if length attempts \<ge> max_attempts
         then sm1\<lparr>blocked_ips := (blocked_ips sm1)(ip \<mapsto> now + block_time)\<rparr>
         else sm1)"

definition record_scanner_behavior ::
  "security_manager \<Rightarrow> string \<Rightarrow> string \<Rightarrow> real \<Rightarrow> bool \<times> security_manager" where
  "record_scanner_behavior sm ip p now =
     (let appended = setdefault_list (scanner_detection sm) ip @ [\<lparr>path = p, time = now\<rparr>];
          kept = filter (\<lambda>e. now - time e < 1800) appended;
          sm1 = sm\<lparr>scanner_detection := (scanner_detection sm)(ip \<mapsto> kept)\<rparr>
      in if length kept \<ge> 3
         then (True, sm1\<lparr>blocked_ips := (blocked_ips sm1)(ip \<mapsto> now + 3600)\<rparr>)
         else (False, sm1))"

definition record_honeypot_hit :: "security_manager \<Rightarrow> string \<Rightarrow> string \<Rightarrow> real \<Rightarrow> security_manager" where
  "record_honeypot_hit sm ip p now =
     sm\<lparr>honeypot_hits :=
          (honeypot_hits sm)(ip \<mapsto> setdefault_list (honeypot_hits sm) ip @ [\<lparr>path = p, time = now\<rparr>]),
        blocked_ips := (blocked_ips sm)(ip \<mapsto> now + 7200)\<rparr>"

definition clear_failed_attempts :: "security_manager \<Rightarrow> string \<Rightarrow> security_manager" where
  "clear_failed_attempts sm ip = sm\<lparr>failed_attempts := (failed_attempts sm)(ip := None)\<rparr>"

text \<open>
  The calls the request handlers make on the object, as one datatype, so that a
  property can be stated over every sequence of them.
\<close>

datatype guard_call =
    IsIpBlocked string real
  | RecordFailedAttempt string real
  | RecordScannerBehavior string string real
  | RecordHoneypotHit string string real
  | ClearFailedAttempts string

fun guard_step :: "guard_call \<Rightarrow> security_manager \<Rightarrow> security_manager" where
  "guard_step (IsIpBlocked ip now) sm = snd (is_ip_blocked sm ip now)"
| "guard_step (RecordFailedAttempt ip now) sm = record_failed_attempt sm ip now"
| "guard_step (RecordScannerBehavior ip p now) sm = snd (record_scanner_behavior sm ip p now)"
| "guard_step (RecordHoneypotHit ip p now) sm = record_honeypot_hit sm ip p now"
| "guard_step (ClearFailedAttempts ip) sm = clear_failed_attempts sm ip"

text \<open>The object \<open>__init__\<close> builds before it loads the saved security data.\<close>

definition new_security_manager :: security_manager where
  "new_security_manager =
     \<lparr>failed_attempts = Map.empty, blocked_ips = Map.empty,
      scanner_detection = Map.empty, honeypot_hits = Map.empty\<rparr>"

section \<open>Forwarding rules, counters and the TCP connection handler\<close>

text \<open>
  A rule is the dictionary \<open>forward_info\<close>. Its first eight keys are the ones written to
  disk; \<open>thread\<close>, \<open>server\<close> and \<open>socket\<close> are set at run time only, and a key that is
  absent is \<open>None\<close>. A run-time object is known by a number. The key \<open>'id'\<close> is the field
  \<open>forward_id\<close>. \<open>active_forwards\<close> is a dictionary in insertion order: a list of
  pairs with distinct keys.
\<close>

type_synonym handle = nat

record forward_info =
  forward_id :: string
  protocol :: string
  local_port :: int
  remote_host :: string
  remote_port :: int
  status :: string
  created_time :: string
  error :: "string option"
  thread :: "handle option"
  server :: "handle option"
  socket :: "handle option"

type_synonym forwards = "(string \<times> forward_info) list"

record stats =
  total_connections :: int
  active_connections :: int
  bytes_transferred :: int
  start_time :: real

record port_forwarder =
  active_forwards :: forwards
  stats :: stats
  running :: bool

text \<open>\<open>d[k][field] = v\<close>: the dictionary stored under \<open>k\<close> is changed in place.\<close>

definition modify :: "string \<Rightarrow> (forward_info \<Rightarrow> forward_info) \<Rightarrow> forwards \<Rightarrow> forwards" where
  "modify k f fs = map (\<lambda>(k', info). if k' = k then (k', f info) else (k', info)) fs"

text \<open>
  \<open>copy_data\<close> reads until the stream ends or an exception is raised. Its argument is
  what the loop met, in order: a chunk that was read and written through, a read that
  raised, or a chunk whose write raised. A history that ends without an empty read or
  an exception is read as followed by the end of the stream.
\<close>

datatype copy_event = Chunk string | ReadRaises | WriteRaises string

fun copy_data :: "stats \<Rightarrow> copy_event list \<Rightarrow> stats" where
  "copy_data st [] = st"
| "copy_data st (Chunk d # rest) =
     (if d = [] then st
      else copy_data (st\<lparr>bytes_transferred := bytes_transferred st + int (length d)\<rparr>) rest)"
| "copy_data st (ReadRaises # rest) = st"
| "copy_data st (WriteRaises d # rest) = st"

text \<open>
  \<open>handle_tcp_client\<close>: \<open>opened\<close> is the result of \<open>asyncio.open_connection\<close>
  (\<open>Inl\<close> the exception's message). The two copy tasks run on one event loop and add to
  the same counter, so their order does not matter. The \<open>finally\<close> block runs on both
  paths; its \<open>writer.close()\<close> is the second component of the result.
\<close>

definition handle_tcp_client ::
  "port_forwarder \<Rightarrow> string + unit \<Rightarrow> copy_event list \<Rightarrow> copy_event list \<Rightarrow> port_forwarder \<times> bool" where
  "handle_tcp_client fw opened inbound outbound =
     (let st = stats fw;
          st1 = (case opened of
                   Inl e \<Rightarrow> st
                 | Inr u \<Rightarrow>
                     copy_data
                       (copy_data
                          (st\<lparr>total_connections := total_connections st + 1,
                              active_connections := active_connections st + 1\<rparr>)
                          inbound)
                       outbound);
          st2 = st1\<lparr>active_connections := active_connections st1 - 1\<rparr>
      in (fw\<lparr>stats := st2\<rparr>, True))"

record stats_report = stats +
  uptime :: real
  active_forwards_count :: int

definition get_stats :: "port_forwarder \<Rightarrow> real \<Rightarrow> stats_report" where
  "get_stats fw now =
     \<lparr>total_connections = total_connections (stats fw),
      active_connections = active_connections (stats fw),
      bytes_transferred = bytes_transferred (stats fw),
      start_time = start_time (stats fw),
      uptime = now - start_time (stats fw),
      active_forwards_count = int (length (active_forwards fw))\<rparr>"

section \<open>PersistenceManager\<close>

text \<open>
  \<open>_calculate_hash\<close> calls \<open>json.dumps\<close>, falls back on \<open>str\<close> when that raises, and
  takes the MD5 of the text. The three are library functions: parameters of the model.
\<close>

record 'a text_of =
  json_dumps :: "'a \<Rightarrow> string option"
  str :: "'a \<Rightarrow> string"

record library =
  forwards_text :: "forwards text_of"
  stats_text :: "stats text_of"
  security_text :: "security_manager text_of"
  md5_hexdigest :: "string \<Rightarrow> string"

definition calculate_hash :: "'a text_of \<Rightarrow> (string \<Rightarrow> string) \<Rightarrow> 'a \<Rightarrow> string" where
  "calculate_hash txt md5 data =
     (case json_dumps txt data of
        Some data_str \<Rightarrow> md5 data_str
      | None \<Rightarrow> md5 (str txt data))"

text \<open>
  A file of the backup directory is known by the three parts of its name
  (\<open>f"{backup_type}_{int(time.time())}.{suffix}"\<close>) and carries its modification time.
  The list is in the order \<open>glob\<close> yields the directory. The program never reads a
  backup, so the content is left out.
\<close>

record backup_file =
  backup_type :: string
  stamp :: int
  suffix :: string
  st_mtime :: real

text \<open>
  \<open>stats.json\<close> as \<open>json.load\<close> returns it: a key may be missing. \<open>forwards.json\<close> is
  the dictionary \<open>json.load\<close> returns, every rule with its eight saved keys. A file is
  paired with its modification time.
\<close>

record stats_json =
  total_connections_key :: "int option"
  active_connections_key :: "int option"
  bytes_transferred_key :: "int option"
  start_time_key :: "real option"

record persistence_manager =
  forwards_file :: "(real \<times> forwards) option"
  stats_file :: "(real \<times> stats_json) option"
  backup_dir :: "backup_file list"
  last_forwards_hash :: "string option"
  last_stats_hash :: "string option"
  last_security_hash :: "string option"
  data_changed :: bool

text \<open>\<open>PersistenceManager()\<close> on a data directory holding the given files.\<close>

definition new_persistence_manager ::
  "(real \<times> forwards) option \<Rightarrow> (real \<times> stats_json) option \<Rightarrow> backup_file list \<Rightarrow> persistence_manager" where
  "new_persistence_manager ff sf backups =
     \<lparr>forwards_file = ff, stats_file = sf, backup_dir = backups,
      last_forwards_hash = None, last_stats_hash = None, last_security_hash = None,
      data_changed = False\<rparr>"

definition check_forwards_changed ::
  "library \<Rightarrow> persistence_manager \<Rightarrow> forwards \<Rightarrow> bool \<times> persistence_manager" where
  "check_forwards_changed lib pm fs =
     (let current_hash = calculate_hash (forwards_text lib) (md5_hexdigest lib) fs
      in if last_forwards_hash pm \<noteq> Some current_hash
         then (True, pm\<lparr>last_forwards_hash := Some current_hash\<rparr>)
         else (False, pm))"

definition check_stats_changed ::
  "library \<Rightarrow> persistence_manager \<Rightarrow> stats \<Rightarrow> bool \<times> persistence_manager" where
  "check_stats_changed lib pm st =
     (let current_hash = calculate_hash (stats_text lib) (md5_hexdigest lib) st
      in if last_stats_hash pm \<noteq> Some current_hash
         then (True, pm\<lparr>last_stats_hash := Some current_hash\<rparr>)
         else (False, pm))"

text \<open>
  \<open>_check_security_changed\<close> hashes the dictionary of the manager's four dictionaries,
  which is the record itself.
\<close>

definition check_security_changed ::
  "library \<Rightarrow> persistence_manager \<Rightarrow> security_manager \<Rightarrow> bool \<times> persistence_manager" where
  "check_security_changed lib pm sm =
     (let current_hash = calculate_hash (security_text lib) (md5_hexdigest lib) sm
      in if last_security_hash pm \<noteq> Some current_hash
         then (True, pm\<lparr>last_security_hash := Some current_hash\<rparr>)
         else (False, pm))"

text \<open>The dictionary \<open>save_forwards\<close> builds for one rule.\<close>

definition serializable_forward :: "forward_info \<Rightarrow> forward_info" where
  "serializable_forward info =
     \<lparr>forward_id = forward_id info,
      protocol = protocol info,
      local_port = local_port info,
      remote_host = remote_host info,
      remote_port = remote_port info,
      status = ''stopped'',
      created_time = created_time info,
      error = error info,
      thread = None, server = None, socket = None\<rparr>"

text \<open>
  \<open>Path.rename\<close> into the backup directory: on POSIX a file of the same name is
  replaced.
\<close>

definition same_name :: "backup_file \<Rightarrow> backup_file \<Rightarrow> bool" where
  "same_name f g =
     (backup_type f = backup_type g \<and> stamp f = stamp g \<and> suffix f = suffix g)"

definition rename_into :: "backup_file list \<Rightarrow> backup_file \<Rightarrow> backup_file list" where
  "rename_into dir f = filter (\<lambda>g. \<not> same_name g f) dir @ [f]"

text \<open>
  What the file system does during one save: nothing raises, the rename raises, or
  the rename is done and opening the file for writing raises. The \<open>except\<close> clause of
  each save returns \<open>False\<close>. \<open>now\<close> is the clock, read for the backup's name and taken
  as the modification time of the file written.
\<close>

datatype save_io = IoOk | RenameRaises | OpenRaises

definition save_forwards ::
  "library \<Rightarrow> persistence_manager \<Rightarrow> forwards \<Rightarrow> real \<Rightarrow> save_io \<Rightarrow> bool \<times> persistence_manager" where
  "save_forwards lib pm fs now io =
     (case check_forwards_changed lib pm fs of
        (False, pm1) \<Rightarrow> (True, pm1)
      | (True, pm1) \<Rightarrow>
          let serializable_forwards = map (\<lambda>(k, info). (k, serializable_forward info)) fs
          in if forwards_file pm1 \<noteq> None \<and> io = RenameRaises then (False, pm1)
             else
               let pm2 = (case forwards_file pm1 of
                            None \<Rightarrow> pm1
                          | Some (mtime, old) \<Rightarrow>
                              pm1\<lparr>forwards_file := None,
                                  backup_dir := rename_into (backup_dir pm1)
                                    \<lparr>backup_type = ''forwards_backup'', stamp = \<lfloor>now\<rfloor>,
                                     suffix = ''json'', st_mtime = mtime\<rparr>\<rparr>)
               in if io = OpenRaises then (False, pm2)
                  else (True, pm2\<lparr>forwards_file := Some (now, serializable_forwards),
                                  data_changed := True\<rparr>))"

text \<open>
  What reading a file that exists does: it yields the content, or \<open>open\<close> or
  \<open>json.load\<close> raises and the \<open>except\<close> clause returns the default.
\<close>

datatype load_io = ReadOk | LoadRaises

definition load_forwards ::
  "library \<Rightarrow> persistence_manager \<Rightarrow> load_io \<Rightarrow> forwards \<times> persistence_manager" where
  "load_forwards lib pm io =
     (case forwards_file pm of
        None \<Rightarrow> ([], pm)
      | Some (mtime, fs) \<Rightarrow>
          if io = LoadRaises then ([], pm)
          else (fs, pm\<lparr>last_forwards_hash :=
                         Some (calculate_hash (forwards_text lib) (md5_hexdigest lib) fs)\<rparr>))"

definition stats_to_json :: "stats \<Rightarrow> stats_json" where
  "stats_to_json st =
     \<lparr>total_connections_key = Some (total_connections st),
      active_connections_key = Some (active_connections st),
      bytes_transferred_key = Some (bytes_transferred st),
      start_time_key = Some (start_time st)\<rparr>"

definition save_stats ::
  "library \<Rightarrow> persistence_manager \<Rightarrow> stats \<Rightarrow> real \<Rightarrow> save_io \<Rightarrow> bool \<times> persistence_manager" where
  "save_stats lib pm st now io =
     (case check_stats_changed lib pm st of
        (False, pm1) \<Rightarrow> (True, pm1)
      | (True, pm1) \<Rightarrow>
          if stats_file pm1 \<noteq> None \<and> io = RenameRaises then (False, pm1)
          else
            let pm2 = (case stats_file pm1 of
                         None \<Rightarrow> pm1
                       | Some (mtime, old) \<Rightarrow>
                           pm1\<lparr>stats_file := None,
                               backup_dir := rename_into (backup_dir pm1)
                                 \<lparr>backup_type = ''stats_backup'', stamp = \<lfloor>now\<rfloor>,
                                  suffix = ''json'', st_mtime = mtime\<rparr>\<rparr>)
            in if io = OpenRaises then (False, pm2)
               else (True, pm2\<lparr>stats_file := Some (now, stats_to_json st),
                               data_changed := True\<rparr>))"

definition default_stats :: "real \<Rightarrow> stats" where
  "default_stats now =
     \<lparr>total_connections = 0, active_connections = 0, bytes_transferred = 0, start_time = now\<rparr>"

definition load_stats ::
  "library \<Rightarrow> persistence_manager \<Rightarrow> real \<Rightarrow> load_io \<Rightarrow> stats \<times> persistence_manager" where
  "load_stats lib pm now io =
     (case stats_file pm of
        None \<Rightarrow> (default_stats now, pm)
      | Some (mtime, js) \<Rightarrow>
          if io = LoadRaises then (default_stats now, pm)
          else
            let st = \<lparr>total_connections = (case total_connections_key js of None \<Rightarrow> 0 | Some v \<Rightarrow> v),
                      active_connections = (case active_connections_key js of None \<Rightarrow> 0 | Some v \<Rightarrow> v),
                      bytes_transferred = (case bytes_transferred_key js of None \<Rightarrow> 0 | Some v \<Rightarrow> v),
                      start_time = (case start_time_key js of None \<Rightarrow> now | Some v \<Rightarrow> v)\<rparr>
            in (st, pm\<lparr>last_stats_hash :=
                         Some (calculate_hash (stats_text lib) (md5_hexdigest lib) st)\<rparr>))"

text \<open>
  \<open>cleanup_old_backups\<close>. \<open>list.sort(key=..., reverse=True)\<close> is stable: files of equal
  modification time keep the order \<open>glob\<close> gave them. \<open>can_unlink\<close> says whether
  \<open>unlink\<close> succeeds on a file; when it raises, the \<open>except\<close> clause ends the whole
  call.
\<close>

definition glob :: "backup_file list \<Rightarrow> string \<Rightarrow> string \<Rightarrow> backup_file list" where
  "glob dir t sfx = filter (\<lambda>f. backup_type f = t \<and> suffix f = sfx) dir"

fun unlink_each ::
  "(backup_file \<Rightarrow> bool) \<Rightarrow> backup_file list \<Rightarrow> backup_file list \<Rightarrow> bool \<times> backup_file list" where
  "unlink_each can_unlink [] dir = (True, dir)"
| "unlink_each can_unlink (f # fs) dir =
     (if can_unlink f
      then unlink_each can_unlink fs (filter (\<lambda>g. \<not> same_name g f) dir)
      else (False, dir))"

fun cleanup_types ::
  "(backup_file \<Rightarrow> bool) \<Rightarrow> string list \<Rightarrow> backup_file list \<Rightarrow> backup_file list" where
  "cleanup_types can_unlink [] dir = dir"
| "cleanup_types can_unlink (t # ts) dir =
     (let backup_files = glob dir t ''json'' @ glob dir t ''pkl'';
          sorted_files = sort_key (\<lambda>f. - st_mtime f) backup_files
      in case unlink_each can_unlink (drop 3 sorted_files) dir of
           (True, dir') \<Rightarrow> cleanup_types can_unlink ts dir'
         | (False, dir') \<Rightarrow> dir')"

definition cleanup_old_backups ::
  "persistence_manager \<Rightarrow> int \<Rightarrow> (backup_file \<Rightarrow> bool) \<Rightarrow> persistence_manager" where
  "cleanup_old_backups pm max_backups can_unlink =
     pm\<lparr>backup_dir :=
          cleanup_types can_unlink [''forwards_backup'', ''stats_backup'', ''security_backup'']
            (backup_dir pm)\<rparr>"

text \<open>
  For the statement of what the rotation keeps: the name of a backup, the files of a
  type that the two patterns of \<open>cleanup_old_backups\<close> match, and the three of them
  that come first in its sorted list.
\<close>

definition name_of :: "backup_file \<Rightarrow> string \<times> int \<times> string" where
  "name_of f = (backup_type f, stamp f, suffix f)"

definition newest_three :: "backup_file list \<Rightarrow> string \<Rightarrow> backup_file list" where
  "newest_three dir t =
     take 3 (sort_key (\<lambda>f. - st_mtime f) (glob dir t ''json'' @ glob dir t ''pkl''))"

definition rotated :: "string \<Rightarrow> backup_file \<Rightarrow> bool" where
  "rotated t f = (backup_type f = t \<and> (suffix f = ''json'' \<or> suffix f = ''pkl''))"

section \<open>PortForwarder: starting, stopping and restoring rules\<close>

text \<open>\<open>str.upper\<close> and \<open>str.lower\<close> on ASCII letters; other characters are kept.\<close>

definition upper_char :: "char \<Rightarrow> char" where
  "upper_char c =
     (case map_of (zip ''abcdefghijklmnopqrstuvwxyz'' ''ABCDEFGHIJKLMNOPQRSTUVWXYZ'') c of
        Some u \<Rightarrow> u | None \<Rightarrow> c)"

definition lower_char :: "char \<Rightarrow> char" where
  "lower_char c =
     (case map_of (zip ''ABCDEFGHIJKLMNOPQRSTUVWXYZ'' ''abcdefghijklmnopqrstuvwxyz'') c of
        Some l \<Rightarrow> l | None \<Rightarrow> c)"

definition upper :: "string \<Rightarrow> string" where
  "upper s = map upper_char s"

definition lower :: "string \<Rightarrow> string" where
  "lower s = map lower_char s"

text \<open>The decimal text of an integer, as an f-string formats it.\<close>

fun str_nat :: "nat \<Rightarrow> string" where
  "str_nat n =
     (if n < 10 then [''0123456789'' ! n]
      else str_nat (n div 10) @ [''0123456789'' ! (n mod 10)])"

declare str_nat.simps [simp del]

definition str_int :: "int \<Rightarrow> string" where
  "str_int i = (if i < 0 then CHR ''-'' # str_nat (nat (- i)) else str_nat (nat i))"

text \<open>
  The message \<open>restore_forwards\<close> stores for a port in use, in UTF-8: the two
  characters U+7AEF U+53E3 and a space, the port, a space and the three characters
  U+88AB U+5360 U+7528.
\<close>

definition port_busy_message :: "int \<Rightarrow> string" where
  "port_busy_message port =
     [CHR 0xE7, CHR 0xAB, CHR 0xAF, CHR 0xE5, CHR 0x8F, CHR 0xA3, CHR '' ''] @ str_int port
     @ [CHR '' '', CHR 0xE8, CHR 0xA2, CHR 0xAB, CHR 0xE5, CHR 0x8D, CHR 0xA0,
        CHR 0xE7, CHR 0x94, CHR 0xA8]"

text \<open>
  What a rule's worker thread writes into the registry. \<open>tcp_forward\<close> stores the server
  once \<open>asyncio.start_server\<close> has bound the port, and on any exception marks the rule
  as failed if it is still registered. The thread of \<open>udp_forward\<close> stores its socket
  after \<open>bind\<close>; a \<open>bind\<close> that raises ends that thread and writes nothing.
\<close>

datatype worker_event =
    ServerStarted handle
  | TcpForwardError string
  | SocketBound handle
  | UdpBindRaises

fun worker_step :: "string \<Rightarrow> worker_event \<Rightarrow> forwards \<Rightarrow> forwards" where
  "worker_step fid (ServerStarted h) fs = modify fid (\<lambda>info. info\<lparr>server := Some h\<rparr>) fs"
| "worker_step fid (TcpForwardError e) fs =
     modify fid (\<lambda>info. info\<lparr>status := ''error'', error := Some e\<rparr>) fs"
| "worker_step fid (SocketBound h) fs = modify fid (\<lambda>info. info\<lparr>socket := Some h\<rparr>) fs"
| "worker_step fid UdpBindRaises fs = fs"

text \<open>\<open>save_data\<close>: both saves, their results dropped.\<close>

record save_env =
  clock :: real
  forwards_io :: save_io
  stats_io :: save_io

definition save_data ::
  "library \<Rightarrow> save_env \<Rightarrow> port_forwarder \<Rightarrow> persistence_manager \<Rightarrow> persistence_manager" where
  "save_data lib env fw pm =
     (let pm1 = snd (save_forwards lib pm (active_forwards fw) (clock env) (forwards_io env))
      in snd (save_stats lib pm1 (stats fw) (clock env) (stats_io env)))"

text \<open>
  \<open>start_forward\<close>. The environment of one call: the identifier \<open>uuid.uuid4()\<close> returns,
  the text of \<open>datetime.now().isoformat()\<close>, whether creating and starting the worker
  thread raises (\<open>Inl\<close> the message) or yields a thread, what the worker has written
  into the registry by the time \<open>time.sleep(0.1)\<close> returns, and the file system at the
  save.
\<close>

record start_env =
  uuid4 :: string
  isoformat :: string
  spawn :: "string + handle"
  during_sleep :: "worker_event list"
  saving :: save_env

type_synonym system = "port_forwarder \<times> persistence_manager"

definition start_forward ::
  "library \<Rightarrow> start_env \<Rightarrow> system \<Rightarrow> string \<Rightarrow> int \<Rightarrow> string \<Rightarrow> int \<Rightarrow> string \<times> system" where
  "start_forward lib env sys proto lport rhost rport =
     (let fw = fst sys; pm = snd sys;
          fid = uuid4 env;
          forward_info =
            \<lparr>forward_id = fid, protocol = upper proto, local_port = lport,
             remote_host = rhost, remote_port = rport, status = ''starting'',
             created_time = isoformat env, error = None,
             thread = None, server = None, socket = None\<rparr>;
          fw1 = fw\<lparr>active_forwards := AList.update fid forward_info (active_forwards fw)\<rparr>;
          threaded = (lower proto = ''tcp'' \<or> lower proto = ''udp'')
      in case (if threaded then spawn env else Inr 0) of
           Inl e \<Rightarrow>
             let fw2 = fw1\<lparr>active_forwards :=
                          modify fid (\<lambda>info. info\<lparr>status := ''error'', error := Some e\<rparr>)
                            (active_forwards fw1)\<rparr>
             in (fid, fw2, save_data lib (saving env) fw2 pm)
         | Inr th \<Rightarrow>
             let fs2 = (if threaded
                        then modify fid (\<lambda>info. info\<lparr>thread := Some th\<rparr>) (active_forwards fw1)
                        else active_forwards fw1);
                 fs3 = fold (worker_step fid) (during_sleep env) fs2;
                 fs4 = modify fid (\<lambda>info. info\<lparr>status := ''running''\<rparr>) fs3;
                 fw4 = fw1\<lparr>active_forwards := fs4\<rparr>
             in (fid, fw4, save_data lib (saving env) fw4 pm))"

text \<open>
  \<open>stop_forward\<close>. \<open>close_raises\<close>: the message of the exception when closing the rule's
  server or socket raises; it is consulted only for a rule that has one.
\<close>

record stop_env =
  close_raises :: "string option"
  stop_saving :: save_env

definition stop_forward :: "library \<Rightarrow> stop_env \<Rightarrow> system \<Rightarrow> string \<Rightarrow> bool \<times> system" where
  "stop_forward lib env sys fid =
     (let fw = fst sys; pm = snd sys
      in case map_of (active_forwards fw) fid of
           None \<Rightarrow> (False, sys)
         | Some forward_info \<Rightarrow>
             if (server forward_info \<noteq> None \<or> socket forward_info \<noteq> None)
                \<and> close_raises env \<noteq> None
             then (False, sys)
             else
               let fw1 = fw\<lparr>active_forwards := AList.delete fid (active_forwards fw)\<rparr>
               in (True, fw1, save_data lib (stop_saving env) fw1 pm))"

text \<open>
  \<open>restore_forwards\<close>. For each rule the environment says whether
  \<open>check_port_availability\<close> finds the port in use, and otherwise what starting the
  worker thread yields.
\<close>

datatype restore_probe = PortInUse | Started handle | StartRaises string

definition restore_one :: "restore_probe \<Rightarrow> forward_info \<Rightarrow> forward_info \<times> bool" where
  "restore_one probe info =
     (let threaded = (lower (protocol info) = ''tcp'' \<or> lower (protocol info) = ''udp'')
      in case probe of
           PortInUse \<Rightarrow>
             (info\<lparr>status := ''error'', error := Some (port_busy_message (local_port info))\<rparr>, False)
         | Started th \<Rightarrow>
             ((if threaded then info\<lparr>thread := Some th\<rparr> else info)
                \<lparr>status := ''running'', error := None\<rparr>, True)
         | StartRaises e \<Rightarrow>
             if threaded then (info\<lparr>status := ''error'', error := Some e\<rparr>, False)
             else (info\<lparr>status := ''running'', error := None\<rparr>, True))"

record restore_env =
  probe :: "string \<Rightarrow> restore_probe"
  restore_saving :: save_env

definition restore_forwards :: "library \<Rightarrow> restore_env \<Rightarrow> system \<Rightarrow> system" where
  "restore_forwards lib env sys =
     (let fw = fst sys; pm = snd sys;
          results = map (\<lambda>(k, info). (k, restore_one (probe env k) info)) (active_forwards fw);
          fw1 = fw\<lparr>active_forwards := map (\<lambda>(k, r). (k, fst r)) results\<rparr>;
          restored_count = length (filter (\<lambda>(k, r). snd r) results)
      in if restored_count > 0 then (fw1, save_data lib (restore_saving env) fw1 pm)
         else (fw1, pm))"

text \<open>\<open>PortForwarder()\<close>: load both files, then restore the rules.\<close>

record boot_env =
  forwards_read :: load_io
  stats_read :: load_io
  boot_clock :: real
  restoring :: restore_env

definition new_port_forwarder :: "library \<Rightarrow> boot_env \<Rightarrow> persistence_manager \<Rightarrow> system" where
  "new_port_forwarder lib env pm =
     (case load_forwards lib pm (forwards_read env) of
        (fs, pm1) \<Rightarrow>
          (case load_stats lib pm1 (boot_clock env) (stats_read env) of
             (st, pm2) \<Rightarrow>
               restore_forwards lib (restoring env)
                 (\<lparr>active_forwards = fs, stats = st, running = True\<rparr>, pm2)))"

section \<open>The control plane\<close>

text \<open>
  The request handlers that change the registry. A form field is \<open>None\<close> when it is
  missing; a port field is also \<open>None\<close> when \<open>int\<close> raises on it. The JSON answers
  are the constructors of \<open>response\<close>.
\<close>

record add_request =
  logged_in :: bool
  form_protocol :: "string option"
  form_local_port :: "int option"
  form_remote_host :: "string option"
  form_remote_port :: "int option"

datatype failure =
    Raised
  | FillAllFields
  | InvalidProtocol
  | PortOutOfRange
  | PortOccupied int
  | PortOccupiedBySystem int
  | StartFailed "string option"

datatype response = Unauthorized | Failure failure | Success string

text \<open>The result of \<open>connect_ex\<close> on the local port: 0, another code, or an exception.\<close>

datatype connect_result = Connected | NotConnected | ProbeRaises

record add_env =
  os_probe :: connect_result
  starting :: start_env

text \<open>
  \<open>api_add_forward\<close> in its two parts. The first reads the form, looks through the
  registry for a rule on the same protocol and port and probes the port; it changes
  nothing, and it ends with an answer or with the arguments for \<open>start_forward\<close>. The
  second calls \<open>start_forward\<close> and reads the status of the new rule.
\<close>

type_synonym start_args = "string \<times> int \<times> string \<times> int"

definition add_forward_checks :: "connect_result \<Rightarrow> system \<Rightarrow> add_request \<Rightarrow> response + start_args" where
  "add_forward_checks probed sys req =
     (if \<not> logged_in req then Inl Unauthorized
      else case (form_local_port req, form_remote_port req) of
        (None, _) \<Rightarrow> Inl (Failure Raised)
      | (Some lport, None) \<Rightarrow> Inl (Failure Raised)
      | (Some lport, Some rport) \<Rightarrow>
          (case (form_protocol req, form_remote_host req) of
             (None, _) \<Rightarrow> Inl (Failure FillAllFields)
           | (Some proto, None) \<Rightarrow> Inl (Failure FillAllFields)
           | (Some proto, Some rhost) \<Rightarrow>
               if proto = [] \<or> lport = 0 \<or> rhost = [] \<or> rport = 0
               then Inl (Failure FillAllFields)
               else if proto \<noteq> ''tcp'' \<and> proto \<noteq> ''udp'' then Inl (Failure InvalidProtocol)
               else if \<not> (1 \<le> lport \<and> lport \<le> 65535) \<or> \<not> (1 \<le> rport \<and> rport \<le> 65535)
               then Inl (Failure PortOutOfRange)
               else if list_ex (\<lambda>(k, forward). local_port forward = lport
                                  \<and> protocol forward = upper proto)
                         (active_forwards (fst sys))
               then Inl (Failure (PortOccupied lport))
               else if probed = Connected then Inl (Failure (PortOccupiedBySystem lport))
               else Inr (proto, lport, rhost, rport)))"

definition add_forward_start :: "library \<Rightarrow> start_env \<Rightarrow> system \<Rightarrow> start_args \<Rightarrow> response \<times> system" where
  "add_forward_start lib env sys args =
     (case args of
        (proto, lport, rhost, rport) \<Rightarrow>
          (case start_forward lib env sys proto lport rhost rport of
             (fid, sys') \<Rightarrow>
               (case map_of (active_forwards (fst sys')) fid of
                  Some forward_info \<Rightarrow>
                    if status forward_info = ''error''
                    then (Failure (StartFailed (error forward_info)), sys')
                    else (Success fid, sys')
                | None \<Rightarrow> (Success fid, sys'))))"

definition api_add_forward :: "library \<Rightarrow> add_env \<Rightarrow> system \<Rightarrow> add_request \<Rightarrow> response \<times> system" where
  "api_add_forward lib env sys req =
     (case add_forward_checks (os_probe env) sys req of
        Inl answer \<Rightarrow> (answer, sys)
      | Inr args \<Rightarrow> add_forward_start lib (starting env) sys args)"

definition api_stop_forward :: "library \<Rightarrow> stop_env \<Rightarrow> system \<Rightarrow> bool \<Rightarrow> string \<Rightarrow> (bool + unit) \<times> system" where
  "api_stop_forward lib env sys is_logged_in fid =
     (if \<not> is_logged_in then (Inr (), sys)
      else case stop_forward lib env sys fid of (success, sys') \<Rightarrow> (Inl success, sys'))"

text \<open>
  \<open>api_check_changes\<close>, the handler of \<open>GET .../api/persistence/changes\<close>: the three
  flags it reports.
\<close>

definition api_check_changes ::
  "library \<Rightarrow> system \<Rightarrow> security_manager \<Rightarrow> bool \<Rightarrow> (bool \<times> bool \<times> bool) option \<times> system" where
  "api_check_changes lib sys sm is_logged_in =
     (if \<not> is_logged_in then (None, sys)
      else
        case check_forwards_changed lib (snd sys) (active_forwards (fst sys)) of
          (forwards_changed, pm1) \<Rightarrow>
            (case check_stats_changed lib pm1 (stats (fst sys)) of
               (stats_changed, pm2) \<Rightarrow>
                 (case check_security_changed lib pm2 sm of
                    (security_changed, pm3) \<Rightarrow>
                      (Some (forwards_changed, stats_changed, security_changed),
                       (fst sys, pm3)))))"

text \<open>
  A restart: the process ends, with the final \<open>save_data\<close> of \<open>main\<close> when it ends
  through \<open>main\<close>'s \<open>finally\<close> block and without it when it is killed; the next
  process builds its \<open>PersistenceManager\<close> on the same data directory and its
  \<open>PortForwarder\<close> from the files.
\<close>

definition restart :: "library \<Rightarrow> save_env option \<Rightarrow> boot_env \<Rightarrow> system \<Rightarrow> system" where
  "restart lib final env sys =
     (let pm1 = (case final of
                   None \<Rightarrow> snd sys
                 | Some senv \<Rightarrow> save_data lib senv (fst sys) (snd sys))
      in new_port_forwarder lib env
           (new_persistence_manager (forwards_file pm1) (stats_file pm1) (backup_dir pm1)))"

text \<open>
  The server answers every request on a thread of its own (\<open>app.run(threaded=True)\<close>)
  and no handler takes a lock. A request to add a rule is therefore two steps of its
  thread, the checks and the start, and any step of another thread can come between
  them (the probe of the port alone can block for a second). Between its two steps
  the request is in flight: its thread holds the arguments that passed the checks. A
  request is known by a number. The other handlers and the reports of the worker
  threads are one step each. \<open>run\<close> is the state after a sequence of steps, from the
  first start on an empty data directory; a restart ends the threads of the old
  process.
\<close>

type_synonym in_flight = "(nat \<times> start_args) list"

datatype operation =
    AddForwardChecks nat connect_result add_request
  | AddForwardStart nat start_env
  | StopForward stop_env bool string
  | CheckChanges security_manager bool
  | Restart "save_env option" boot_env
  | WorkerReport string worker_event

fun step :: "library \<Rightarrow> operation \<Rightarrow> system \<times> in_flight \<Rightarrow> system \<times> in_flight" where
  "step lib (AddForwardChecks request probed req) (sys, flying) =
     (case add_forward_checks probed sys req of
        Inl answer \<Rightarrow> (sys, flying)
      | Inr args \<Rightarrow> (sys, AList.update request args flying))"
| "step lib (AddForwardStart request env) (sys, flying) =
     (case map_of flying request of
        None \<Rightarrow> (sys, flying)
      | Some args \<Rightarrow> (snd (add_forward_start lib env sys args), AList.delete request flying))"
| "step lib (StopForward env is_logged_in fid) (sys, flying) =
     (snd (api_stop_forward lib env sys is_logged_in fid), flying)"
| "step lib (CheckChanges sm is_logged_in) (sys, flying) =
     (snd (api_check_changes lib sys sm is_logged_in), flying)"
| "step lib (Restart final env) (sys, flying) = (restart lib final env sys, [])"
| "step lib (WorkerReport fid ev) (sys, flying) =
     (((fst sys)\<lparr>active_forwards := worker_step fid ev (active_forwards (fst sys))\<rparr>, snd sys),
      flying)"

definition first_start :: "library \<Rightarrow> boot_env \<Rightarrow> system \<times> in_flight" where
  "first_start lib env =
     (new_port_forwarder lib env (new_persistence_manager None None []), [])"

definition run :: "library \<Rightarrow> boot_env \<Rightarrow> operation list \<Rightarrow> system \<times> in_flight" where
  "run lib env ops = fold (step lib) ops (first_start lib env)"

text \<open>
  The sequences in which no step comes between the two steps of a request to add a
  rule: every handler runs to its end before the next step.
\<close>

fun uninterrupted :: "operation list \<Rightarrow> bool" where
  "uninterrupted [] = True"
| "uninterrupted (AddForwardChecks request probed req # AddForwardStart request' env # ops) =
     (request = request' \<and> uninterrupted ops)"
| "uninterrupted (AddForwardChecks request probed req # ops) = False"
| "uninterrupted (AddForwardStart request env # ops) = False"
| "uninterrupted (op # ops) = uninterrupted ops"

text \<open>
  The invariant of the data model: among the rules whose status is \<open>starting\<close> or
  \<open>running\<close>, no two have the same protocol and local port.
\<close>

definition binding :: "string \<times> forward_info \<Rightarrow> string \<times> int" where
  "binding kv = (protocol (snd kv), local_port (snd kv))"

definition live :: "string \<times> forward_info \<Rightarrow> bool" where
  "live kv = (status (snd kv) = ''starting'' \<or> status (snd kv) = ''running'')"

definition one_live_rule_per_port :: "forwards \<Rightarrow> bool" where
  "one_live_rule_per_port fs = distinct (map binding (filter live fs))"

text \<open>
  The stronger property that every handler keeps when it runs to its end: no two rules
  of the registry, whatever their status, share a protocol and local port, and neither
  do two rules of \<open>forwards.json\<close>.
\<close>

definition file_ok :: "persistence_manager \<Rightarrow> bool" where
  "file_ok pm =
     (case forwards_file pm of
        None \<Rightarrow> True
      | Some (mtime, fs) \<Rightarrow> distinct (map binding fs))"

section \<open>Concrete inputs for the examples\<close>

text \<open>
  A stand-in for the library functions: \<open>json.dumps\<close> raises on the registry (it holds
  thread objects) and on the security manager, the text of a value lists what the
  examples change, and the digest of a text is the text.
\<close>

definition example_library :: library where
  "example_library =
     \<lparr>forwards_text =
        \<lparr>json_dumps = (\<lambda>fs. None),
         str = (\<lambda>fs. concat (map (\<lambda>(k, info). k @ '':'' @ status info @ '';'') fs))\<rparr>,
      stats_text =
        \<lparr>json_dumps = (\<lambda>st. Some (str_int (total_connections st) @ '','' @
                                    str_int (active_connections st) @ '','' @
                                    str_int (bytes_transferred st))),
         str = (\<lambda>st. [])\<rparr>,
      security_text = \<lparr>json_dumps = (\<lambda>sm. None), str = (\<lambda>sm. [])\<rparr>,
      md5_hexdigest = (\<lambda>s. s)\<rparr>"

definition example_rule :: forward_info where
  "example_rule =
     \<lparr>forward_id = ''r1'', protocol = ''TCP'', local_port = 8080,
      remote_host = ''10.0.0.2'', remote_port = 80, status = ''running'',
      created_time = ''2024-01-01T00:00:00'', error = None,
      thread = Some 1, server = Some 2, socket = None\<rparr>"

definition example_save_env :: save_env where
  "example_save_env = \<lparr>clock = 100, forwards_io = IoOk, stats_io = IoOk\<rparr>"

definition example_boot_env :: boot_env where
  "example_boot_env =
     \<lparr>forwards_read = ReadOk, stats_read = ReadOk, boot_clock = 50,
      restoring = \<lparr>probe = (\<lambda>k. Started 7), restore_saving = example_save_env\<rparr>\<rparr>"

definition example_add_env :: "string \<Rightarrow> add_env" where
  "example_add_env fid =
     \<lparr>os_probe = NotConnected,
      starting = \<lparr>uuid4 = fid, isoformat = ''2024-01-01T00:00:00'', spawn = Inr 1,
                  during_sleep = [ServerStarted 2], saving = example_save_env\<rparr>\<rparr>"

definition example_request :: add_request where
  "example_request =
     \<lparr>logged_in = True, form_protocol = Some ''tcp'', form_local_port = Some 8080,
      form_remote_host = Some ''10.0.0.2'', form_remote_port = Some 80\<rparr>"

section \<open>Lockout after failed logins\<close>

lemma record_failed_attempt_list:
  "failed_attempts (record_failed_attempt sm ip now) ip
     = Some (filter (\<lambda>t. now - t < 3600) (setdefault_list (failed_attempts sm) ip) @ [now])"
  by (simp add: record_failed_attempt_def Let_def)

lemma record_failed_attempt_blocked:
  "blocked_ips (record_failed_attempt sm ip now) ip
     = (if max_attempts \<le> length (filter (\<lambda>t. now - t < 3600)
                                    (setdefault_list (failed_attempts sm) ip) @ [now])
        then Some (now + block_time) else blocked_ips sm ip)"
  by (simp add: record_failed_attempt_def Let_def)

text \<open>
  Calls that lie within one hour of each other all survive the pruning: after them the
  list of the IP ends with their timestamps.
\<close>

lemma failed_attempts_accumulate:
  assumes "\<forall>a\<in>set ts. \<forall>b\<in>set ts. b - a < 3600"
  shows "\<exists>pre. setdefault_list
           (failed_attempts (fold guard_step (map (RecordFailedAttempt ip) ts) sm)) ip = pre @ ts"
  using assms
proof (induction ts rule: rev_induct)
  case Nil
  then show ?case by simp
next
  case (snoc t ts)
  then obtain pre where pre:
    "setdefault_list (failed_attempts (fold guard_step (map (RecordFailedAttempt ip) ts) sm)) ip
       = pre @ ts"
    by auto
  have keep: "filter (\<lambda>a. t - a < 3600) ts = ts"
    using snoc.prems by (auto simp: filter_id_conv)
  show ?case
    by (simp add: record_failed_attempt_list setdefault_list_def
          pre[unfolded setdefault_list_def] keep)
qed

text \<open>
  Claim C4. Five (or more) calls of \<open>record_failed_attempt\<close> for one IP whose timestamps
  lie pairwise less than 3600 seconds apart leave the IP blocked until 300 seconds
  after the last call: \<open>is_ip_blocked\<close> answers true at every time before that expiry
  and leaves the manager as it is; at the expiry and after it answers false and
  deletes the IP's entry of \<open>blocked_ips\<close>.
\<close>

theorem five_failed_attempts_block:
  assumes "5 \<le> length ts" and "\<forall>a\<in>set ts. \<forall>b\<in>set ts. b - a < 3600"
  shows "let sm5 = fold guard_step (map (RecordFailedAttempt ip) ts) sm;
             expiry = last ts + 300
         in blocked_ips sm5 ip = Some expiry
            \<and> (\<forall>now. now < expiry \<longrightarrow> is_ip_blocked sm5 ip now = (True, sm5))
            \<and> (\<forall>now. expiry \<le> now \<longrightarrow>
                   fst (is_ip_blocked sm5 ip now) = False
                   \<and> blocked_ips (snd (is_ip_blocked sm5 ip now)) ip = None
                   \<and> snd (is_ip_blocked sm5 ip now)
                       = sm5\<lparr>blocked_ips := (blocked_ips sm5)(ip := None)\<rparr>)"
proof -
  define sm5 where "sm5 = fold guard_step (map (RecordFailedAttempt ip) ts) sm"
  from assms(1) obtain t ts0 where ts: "ts = ts0 @ [t]"
    by (cases ts rule: rev_cases) auto
  define sm4 where "sm4 = fold guard_step (map (RecordFailedAttempt ip) ts0) sm"
  have sm5: "sm5 = record_failed_attempt sm4 ip t"
    by (simp add: sm5_def sm4_def ts)
  have "\<forall>a\<in>set ts0. \<forall>b\<in>set ts0. b - a < 3600"
    using assms(2) by (simp add: ts)
  from failed_attempts_accumulate[OF this, of ip sm]
  obtain pre where pre: "setdefault_list (failed_attempts sm4) ip = pre @ ts0"
    by (auto simp: sm4_def)
  have keep: "filter (\<lambda>a. t - a < 3600) ts0 = ts0"
    using assms(2) by (auto simp: ts filter_id_conv)
  have "5 \<le> length (filter (\<lambda>a. t - a < 3600) (setdefault_list (failed_attempts sm4) ip) @ [t])"
    using assms(1) by (simp add: pre keep ts)
  then have blocked: "blocked_ips sm5 ip = Some (last ts + 300)"
    by (simp add: sm5 record_failed_attempt_blocked max_attempts_def block_time_def ts)
  show ?thesis
    unfolding Let_def sm5_def[symmetric]
    by (simp add: blocked is_ip_blocked_def)
qed

theorem five_failed_attempts_block_witness:
  "5 \<le> length [0, 600, 1200, 1800, 3599 :: real]
   \<and> Max (set [0, 600, 1200, 1800, 3599 :: real]) - Min (set [0, 600, 1200, 1800, 3599]) < 3600
   \<and> fst (is_ip_blocked
            (fold guard_step (map (RecordFailedAttempt ''10.0.0.7'') [0, 600, 1200, 1800, 3599])
               new_security_manager) ''10.0.0.7'' 3898)
   \<and> \<not> fst (is_ip_blocked
            (fold guard_step (map (RecordFailedAttempt ''10.0.0.7'') [0, 600, 1200, 1800, 3599])
               new_security_manager) ''10.0.0.7'' 3899)"
proof -
  have len: "5 \<le> length [0, 600, 1200, 1800, 3599 :: real]"
    by simp
  have near: "\<forall>a\<in>set [0, 600, 1200, 1800, 3599 :: real]. \<forall>b\<in>set [0, 600, 1200, 1800, 3599]. b - a < 3600"
    by simp
  show ?thesis
    using len five_failed_attempts_block [OF len near, of "''10.0.0.7''" new_security_manager]
    by (simp add: Let_def)
qed

section \<open>Honeypot hits\<close>

lemma guard_step_honeypot_mono:
  "e \<in> set (setdefault_list (honeypot_hits sm) ip)
   \<Longrightarrow> e \<in> set (setdefault_list (honeypot_hits (guard_step c sm)) ip)"
  by (cases c)
     (auto simp: is_ip_blocked_def record_failed_attempt_def record_scanner_behavior_def
        record_honeypot_hit_def clear_failed_attempts_def setdefault_list_def Let_def
        split: option.splits if_splits)

lemma fold_guard_step_honeypot_mono:
  "e \<in> set (setdefault_list (honeypot_hits sm) ip)
   \<Longrightarrow> e \<in> set (setdefault_list (honeypot_hits (fold guard_step cs sm)) ip)"
  by (induction cs arbitrary: sm) (simp_all add: guard_step_honeypot_mono)

text \<open>
  Claim C8. One call of \<open>record_honeypot_hit\<close> appends the entry to the IP's list of
  \<open>honeypot_hits\<close>, where it stays through every later sequence of calls on the
  manager; it sets the IP's block to 7200 seconds after the call whatever the state
  was, so that \<open>is_ip_blocked\<close> answers true at once and at every time before that
  expiry. When the scanner check made at the same time triggers, its block ends 3600
  seconds after the call, strictly earlier.
\<close>

theorem honeypot_hit_blocks_longer_than_scanner:
  "let sm' = record_honeypot_hit sm ip p now in
     honeypot_hits sm' ip
       = Some (setdefault_list (honeypot_hits sm) ip @ [\<lparr>path = p, time = now\<rparr>])
   \<and> (\<forall>calls. \<lparr>path = p, time = now\<rparr>
          \<in> set (setdefault_list (honeypot_hits (fold guard_step calls sm')) ip))
   \<and> blocked_ips sm' ip = Some (now + 7200)
   \<and> is_ip_blocked sm' ip now = (True, sm')
   \<and> (\<forall>t. t < now + 7200 \<longrightarrow> is_ip_blocked sm' ip t = (True, sm'))
   \<and> (\<forall>sm0 q. fst (record_scanner_behavior sm0 ip q now) \<longrightarrow>
          blocked_ips (snd (record_scanner_behavior sm0 ip q now)) ip = Some (now + 3600)
          \<and> now + 3600 < now + 7200)"
proof -
  define sm' where "sm' = record_honeypot_hit sm ip p now"
  have hits: "honeypot_hits sm' ip
      = Some (setdefault_list (honeypot_hits sm) ip @ [\<lparr>path = p, time = now\<rparr>])"
    by (simp add: sm'_def record_honeypot_hit_def)
  then have "\<lparr>path = p, time = now\<rparr> \<in> set (setdefault_list (honeypot_hits sm') ip)"
    by (simp add: setdefault_list_def)
  then have kept: "\<forall>calls. \<lparr>path = p, time = now\<rparr>
      \<in> set (setdefault_list (honeypot_hits (fold guard_step calls sm')) ip)"
    by (simp add: fold_guard_step_honeypot_mono)
  have blocked: "blocked_ips sm' ip = Some (now + 7200)"
    by (simp add: sm'_def record_honeypot_hit_def)
  have horizon: "\<forall>t. t < now + 7200 \<longrightarrow> is_ip_blocked sm' ip t = (True, sm')"
    by (simp add: is_ip_blocked_def blocked)
  have scanner: "\<forall>sm0 q. fst (record_scanner_behavior sm0 ip q now) \<longrightarrow>
          blocked_ips (snd (record_scanner_behavior sm0 ip q now)) ip = Some (now + 3600)
          \<and> now + 3600 < now + 7200"
    by (simp add: record_scanner_behavior_def Let_def)
  show ?thesis
    unfolding Let_def sm'_def[symmetric]
    using hits kept blocked horizon scanner by simp
qed

theorem honeypot_hit_blocks_longer_than_scanner_witness:
  "(100::real) < 50 + 7200
   \<and> is_ip_blocked (record_honeypot_hit new_security_manager ''10.0.0.7'' ''/wp-admin'' 50)
        ''10.0.0.7'' 100
       = (True, record_honeypot_hit new_security_manager ''10.0.0.7'' ''/wp-admin'' 50)
   \<and> fst (record_scanner_behavior
        (snd (record_scanner_behavior
               (snd (record_scanner_behavior new_security_manager ''10.0.0.7'' ''/a'' 10))
               ''10.0.0.7'' ''/b'' 20)) ''10.0.0.7'' ''/c'' 50)
   \<and> blocked_ips (snd (record_scanner_behavior
        (snd (record_scanner_behavior
               (snd (record_scanner_behavior new_security_manager ''10.0.0.7'' ''/a'' 10))
               ''10.0.0.7'' ''/b'' 20)) ''10.0.0.7'' ''/c'' 50)) ''10.0.0.7'' = Some 3650"
proof -
  let ?sm2 = "snd (record_scanner_behavior
               (snd (record_scanner_behavior new_security_manager ''10.0.0.7'' ''/a'' 10))
               ''10.0.0.7'' ''/b'' 20)"
  let ?hit = "record_honeypot_hit new_security_manager ''10.0.0.7'' ''/wp-admin'' 50"
  have trig: "fst (record_scanner_behavior ?sm2 ''10.0.0.7'' ''/c'' 50)"
    by (simp add: record_scanner_behavior_def new_security_manager_def setdefault_list_def Let_def)
  from honeypot_hit_blocks_longer_than_scanner
         [of new_security_manager "''10.0.0.7''" "''/wp-admin''" 50]
  have h: "\<forall>t. t < 50 + 7200 \<longrightarrow> is_ip_blocked ?hit ''10.0.0.7'' t = (True, ?hit)"
    and s: "\<forall>sm0 q. fst (record_scanner_behavior sm0 ''10.0.0.7'' q 50) \<longrightarrow>
          blocked_ips (snd (record_scanner_behavior sm0 ''10.0.0.7'' q 50)) ''10.0.0.7''
            = Some (50 + 3600)"
    unfolding Let_def by blast+
  from h have "is_ip_blocked ?hit ''10.0.0.7'' 100 = (True, ?hit)"
    by simp
  moreover from s trig
  have "blocked_ips (snd (record_scanner_behavior ?sm2 ''10.0.0.7'' ''/c'' 50)) ''10.0.0.7''
          = Some 3650"
    by fastforce
  ultimately show ?thesis
    using trig by simp
qed

section \<open>Statistics\<close>

lemma restore_forwards_stats: "stats (fst (restore_forwards lib env sys)) = stats (fst sys)"
  by (simp add: restore_forwards_def Let_def)

lemma load_forwards_stats_file: "stats_file (snd (load_forwards lib pm io)) = stats_file pm"
  by (simp add: load_forwards_def split: option.splits)

lemma load_stats_start_time:
  "stats_file pm = Some (mtime, js) \<Longrightarrow> start_time_key js = Some t
   \<Longrightarrow> start_time (fst (load_stats lib pm now ReadOk)) = t"
  by (simp add: load_stats_def Let_def)

lemma new_port_forwarder_start_time:
  assumes "stats_file pm = Some (mtime, js)" and "start_time_key js = Some t"
    and "stats_read env = ReadOk"
  shows "start_time (stats (fst (new_port_forwarder lib env pm))) = t"
proof -
  obtain fs pm1 where lf: "load_forwards lib pm (forwards_read env) = (fs, pm1)"
    by (cases "load_forwards lib pm (forwards_read env)")
  then have "stats_file pm1 = Some (mtime, js)"
    using load_forwards_stats_file[of lib pm "forwards_read env"] assms(1) by simp
  then have st: "start_time (fst (load_stats lib pm1 (boot_clock env) ReadOk)) = t"
    using assms(2) by (rule load_stats_start_time)
  obtain st0 pm2 where ls: "load_stats lib pm1 (boot_clock env) ReadOk = (st0, pm2)"
    by (cases "load_stats lib pm1 (boot_clock env) ReadOk")
  show ?thesis
    using st by (simp add: new_port_forwarder_def lf ls assms(3) restore_forwards_stats)
qed

text \<open>
  Claim C10. \<open>get_stats\<close> reports as \<open>active_forwards\<close> the number of entries of the
  registry: rules that are not \<open>running\<close> (failed ones, ones still starting) count
  like running ones, and changing the status of a rule does not change the number.
  It reports as \<open>uptime\<close> the time of the call minus the \<open>start_time\<close> counter, and
  for a forwarder built from a readable \<open>stats.json\<close> that holds \<open>start_time\<close> this is
  the saved value.
\<close>

theorem get_stats_counts_every_rule:
  "active_forwards_count (get_stats fw now) = int (length (active_forwards fw))
   \<and> active_forwards_count (get_stats fw now)
       = int (length (filter (\<lambda>kv. status (snd kv) = ''running'') (active_forwards fw)))
         + int (length (filter (\<lambda>kv. status (snd kv) \<noteq> ''running'') (active_forwards fw)))
   \<and> (\<forall>f. active_forwards_count
              (get_stats (fw\<lparr>active_forwards := modify k (\<lambda>info. info\<lparr>status := f info\<rparr>)
                                                    (active_forwards fw)\<rparr>) now)
            = active_forwards_count (get_stats fw now))
   \<and> uptime (get_stats fw now) = now - start_time (stats fw)
   \<and> (\<forall>lib env pm mtime js t.
          stats_file pm = Some (mtime, js) \<and> start_time_key js = Some t \<and> stats_read env = ReadOk
          \<longrightarrow> uptime (get_stats (fst (new_port_forwarder lib env pm)) now) = now - t)"
proof -
  have split: "length (active_forwards fw)
      = length (filter (\<lambda>kv. status (snd kv) = ''running'') (active_forwards fw))
        + length (filter (\<lambda>kv. status (snd kv) \<noteq> ''running'') (active_forwards fw))"
    by (rule sum_length_filter_compl[symmetric])
  have count: "active_forwards_count (get_stats fw now) = int (length (active_forwards fw))"
    by (simp add: get_stats_def)
  have up: "\<And>fw'. uptime (get_stats fw' now) = now - start_time (stats fw')"
    by (simp add: get_stats_def)
  show ?thesis
    using split count
    by (auto simp: up new_port_forwarder_start_time get_stats_def modify_def)
qed

theorem get_stats_counts_every_rule_witness:
  "stats_file (new_persistence_manager None
       (Some (90, stats_to_json (default_stats 40))) []) = Some (90, stats_to_json (default_stats 40))
   \<and> start_time_key (stats_to_json (default_stats 40)) = Some 40
   \<and> stats_read example_boot_env = ReadOk
   \<and> uptime (get_stats (fst (new_port_forwarder example_library example_boot_env
         (new_persistence_manager None (Some (90, stats_to_json (default_stats 40))) []))) 1000)
       = 960
   \<and> active_forwards_count
        (get_stats \<lparr>active_forwards = [(''r1'', example_rule),
                                        (''r2'', example_rule\<lparr>status := ''error''\<rparr>)],
                    stats = default_stats 40, running = True\<rparr> 1000) = 2"
proof -
  let ?pm = "new_persistence_manager None (Some (90, stats_to_json (default_stats 40))) []"
  let ?fw = "\<lparr>active_forwards = [(''r1'', example_rule),
                                  (''r2'', example_rule\<lparr>status := ''error''\<rparr>)],
              stats = default_stats 40, running = True\<rparr>"
  have h: "stats_file ?pm = Some (90, stats_to_json (default_stats 40))
      \<and> start_time_key (stats_to_json (default_stats 40)) = Some 40
      \<and> stats_read example_boot_env = ReadOk"
    by (simp add: new_persistence_manager_def stats_to_json_def default_stats_def
          example_boot_env_def)
  from get_stats_counts_every_rule [of ?fw 1000 "''r1''"]
  have count: "active_forwards_count (get_stats ?fw 1000) = int (length (active_forwards ?fw))"
    and saved: "\<forall>lib env pm mtime js t.
          stats_file pm = Some (mtime, js) \<and> start_time_key js = Some t \<and> stats_read env = ReadOk
          \<longrightarrow> uptime (get_stats (fst (new_port_forwarder lib env pm)) 1000) = 1000 - t"
    by blast+
  from saved h
  have "uptime (get_stats (fst (new_port_forwarder example_library example_boot_env ?pm)) 1000)
          = 1000 - 40"
    by blast
  with h count show ?thesis
    by simp
qed

section \<open>The counters of one TCP connection\<close>

lemma copy_data_counters:
  "total_connections (copy_data st evs) = total_connections st
   \<and> active_connections (copy_data st evs) = active_connections st
   \<and> start_time (copy_data st evs) = start_time st"
  by (induction st evs rule: copy_data.induct) simp_all

lemma handle_tcp_client_connected:
  "total_connections (stats (fst (handle_tcp_client fw (Inr ()) inbound outbound)))
     = total_connections (stats fw) + 1
   \<and> active_connections (stats (fst (handle_tcp_client fw (Inr ()) inbound outbound)))
     = active_connections (stats fw)
   \<and> active_forwards (fst (handle_tcp_client fw (Inr ()) inbound outbound)) = active_forwards fw"
  by (simp add: handle_tcp_client_def Let_def copy_data_counters)

text \<open>
  Claim C3. When \<open>asyncio.open_connection\<close> raises, \<open>handle_tcp_client\<close> closes the
  inbound writer and leaves the registry and \<open>total_connections\<close> as they were, but
  its \<open>finally\<close> block still subtracts one from \<open>active_connections\<close>, which was never
  incremented: from counters that are all zero the handler leaves
  \<open>active_connections\<close> at -1. (On a connection that opens, \<open>total_connections\<close> rises by
  one and \<open>active_connections\<close> ends where it began: the preceding lemma.)
\<close>

theorem handle_tcp_client_failed_dial_decrements:
  "handle_tcp_client fw (Inl e) inbound outbound
     = (fw\<lparr>stats := (stats fw)\<lparr>active_connections := active_connections (stats fw) - 1\<rparr>\<rparr>, True)
   \<and> active_connections (stats (fst (handle_tcp_client
         \<lparr>active_forwards = [], 
          stats = \<lparr>total_connections = 0, active_connections = 0, bytes_transferred = 0,
                   start_time = 0\<rparr>,
          running = True\<rparr>
         (Inl ''Connection refused'') [] []))) = - 1"
  by (simp add: handle_tcp_client_def Let_def)

section \<open>Change detection and saving\<close>

lemma check_stats_changed_forwards:
  "last_forwards_hash (snd (check_stats_changed lib pm st)) = last_forwards_hash pm
   \<and> forwards_file (snd (check_stats_changed lib pm st)) = forwards_file pm
   \<and> backup_dir (snd (check_stats_changed lib pm st)) = backup_dir pm"
  by (simp add: check_stats_changed_def Let_def)

lemma check_security_changed_forwards:
  "last_forwards_hash (snd (check_security_changed lib pm sm)) = last_forwards_hash pm
   \<and> forwards_file (snd (check_security_changed lib pm sm)) = forwards_file pm
   \<and> backup_dir (snd (check_security_changed lib pm sm)) = backup_dir pm"
  by (simp add: check_security_changed_def Let_def)

lemma save_forwards_same_hash:
  "last_forwards_hash pm = Some (calculate_hash (forwards_text lib) (md5_hexdigest lib) v)
   \<Longrightarrow> save_forwards lib pm v now io = (True, pm)"
  by (simp add: save_forwards_def check_forwards_changed_def)

text \<open>
  Claim C9. When the hash of the registry \<open>v\<close> differs from the stored one,
  \<open>_check_forwards_changed\<close> answers true and stores the hash of \<open>v\<close>; a
  \<open>save_forwards\<close> of the same \<open>v\<close> right after it returns \<open>True\<close> and changes nothing:
  \<open>forwards.json\<close> is what it was (\<open>v\<close> has not been written). The same holds after
  \<open>api_check_changes\<close>, the handler of the changes endpoint, which reports
  \<open>forwards_changed\<close> as true and leaves the files and the backup directory alone.
\<close>

theorem change_check_makes_save_skip:
  assumes "last_forwards_hash pm \<noteq> Some (calculate_hash (forwards_text lib) (md5_hexdigest lib) v)"
  shows "check_forwards_changed lib pm v
           = (True, pm\<lparr>last_forwards_hash :=
                         Some (calculate_hash (forwards_text lib) (md5_hexdigest lib) v)\<rparr>)
         \<and> save_forwards lib (snd (check_forwards_changed lib pm v)) v now io
             = (True, snd (check_forwards_changed lib pm v))
         \<and> forwards_file (snd (check_forwards_changed lib pm v)) = forwards_file pm
         \<and> (\<forall>fw sm. active_forwards fw = v \<longrightarrow>
               (\<exists>stats_changed security_changed.
                  fst (api_check_changes lib (fw, pm) sm True)
                    = Some (True, stats_changed, security_changed))
               \<and> save_forwards lib (snd (snd (api_check_changes lib (fw, pm) sm True))) v now io
                   = (True, snd (snd (api_check_changes lib (fw, pm) sm True)))
               \<and> forwards_file (snd (snd (api_check_changes lib (fw, pm) sm True)))
                   = forwards_file pm
               \<and> backup_dir (snd (snd (api_check_changes lib (fw, pm) sm True)))
                   = backup_dir pm)"
proof -
  let ?h = "calculate_hash (forwards_text lib) (md5_hexdigest lib) v"
  let ?pm1 = "pm\<lparr>last_forwards_hash := Some ?h\<rparr>"
  have chk: "check_forwards_changed lib pm v = (True, ?pm1)"
    using assms by (simp add: check_forwards_changed_def)
  have skip: "save_forwards lib ?pm1 v now io = (True, ?pm1)"
    by (rule save_forwards_same_hash) simp
  have api: "\<exists>sc secc. fst (api_check_changes lib (fw, pm) sm True) = Some (True, sc, secc)"
    if "active_forwards fw = v" for fw sm
    using that by (simp add: api_check_changes_def chk split: prod.splits)
  have api_pm: "last_forwards_hash (snd (snd (api_check_changes lib (fw, pm) sm True))) = Some ?h
      \<and> forwards_file (snd (snd (api_check_changes lib (fw, pm) sm True))) = forwards_file pm
      \<and> backup_dir (snd (snd (api_check_changes lib (fw, pm) sm True))) = backup_dir pm"
    if "active_forwards fw = v" for fw sm
  proof -
    obtain sc pm2 where s: "check_stats_changed lib ?pm1 (stats fw) = (sc, pm2)"
      by (cases "check_stats_changed lib ?pm1 (stats fw)")
    obtain secc pm3 where c: "check_security_changed lib pm2 sm = (secc, pm3)"
      by (cases "check_security_changed lib pm2 sm")
    have "last_forwards_hash pm2 = Some ?h \<and> forwards_file pm2 = forwards_file pm
        \<and> backup_dir pm2 = backup_dir pm"
      using check_stats_changed_forwards[of lib ?pm1 "stats fw"] s by simp
    then have "last_forwards_hash pm3 = Some ?h \<and> forwards_file pm3 = forwards_file pm
        \<and> backup_dir pm3 = backup_dir pm"
      using check_security_changed_forwards[of lib pm2 sm] c by simp
    then show ?thesis
      using that by (simp add: api_check_changes_def chk s c)
  qed
  show ?thesis
    using chk skip api api_pm by (simp add: save_forwards_same_hash)
qed

theorem change_check_makes_save_skip_witness:
  "last_forwards_hash (new_persistence_manager None None []) = None
   \<and> fst (check_forwards_changed example_library (new_persistence_manager None None [])
            [(''r1'', example_rule)]) = True
   \<and> save_forwards example_library
        (snd (check_forwards_changed example_library (new_persistence_manager None None [])
                [(''r1'', example_rule)]))
        [(''r1'', example_rule)] 100 IoOk
       = (True, snd (check_forwards_changed example_library (new_persistence_manager None None [])
                       [(''r1'', example_rule)]))
   \<and> forwards_file (snd (check_forwards_changed example_library
                            (new_persistence_manager None None []) [(''r1'', example_rule)])) = None"
proof -
  have h: "last_forwards_hash (new_persistence_manager None None [])
      \<noteq> Some (calculate_hash (forwards_text example_library) (md5_hexdigest example_library)
                 [(''r1'', example_rule)])"
    by (simp add: new_persistence_manager_def)
  let ?pm = "new_persistence_manager None None []"
  let ?v = "[(''r1'', example_rule)]"
  from change_check_makes_save_skip [OF h, of 100 IoOk]
  have 1: "check_forwards_changed example_library ?pm ?v
           = (True, ?pm\<lparr>last_forwards_hash :=
                Some (calculate_hash (forwards_text example_library)
                        (md5_hexdigest example_library) ?v)\<rparr>)"
    and 2: "save_forwards example_library (snd (check_forwards_changed example_library ?pm ?v))
              ?v 100 IoOk
            = (True, snd (check_forwards_changed example_library ?pm ?v))"
    and 3: "forwards_file (snd (check_forwards_changed example_library ?pm ?v))
            = forwards_file ?pm"
    by blast+
  have 4: "last_forwards_hash ?pm = None" and 5: "forwards_file ?pm = None"
    by (simp_all add: new_persistence_manager_def)
  have 6: "fst (check_forwards_changed example_library ?pm ?v) = True"
    by (simp only: 1 fst_conv)
  have 7: "forwards_file (snd (check_forwards_changed example_library ?pm ?v)) = None"
    by (simp only: 3 5)
  show ?thesis
    by (intro conjI) (fact 4 6 2 7)+
qed

lemma save_forwards_written:
  assumes "last_forwards_hash pm \<noteq> Some (calculate_hash (forwards_text lib) (md5_hexdigest lib) v)"
  shows "fst (save_forwards lib pm v now IoOk) = True
     \<and> forwards_file (snd (save_forwards lib pm v now IoOk))
         = Some (now, map (\<lambda>(k, info). (k, serializable_forward info)) v)
     \<and> last_forwards_hash (snd (save_forwards lib pm v now IoOk))
         = Some (calculate_hash (forwards_text lib) (md5_hexdigest lib) v)"
  using assms
  by (auto simp: save_forwards_def check_forwards_changed_def Let_def split: option.splits)

lemma serializable_fields:
  "map (\<lambda>(k, r). (k, forward_id r, protocol r, local_port r, remote_host r, remote_port r,
                   created_time r, error r))
       (map (\<lambda>(k, info). (k, serializable_forward info)) v)
   = map (\<lambda>(k, r). (k, forward_id r, protocol r, local_port r, remote_host r, remote_port r,
                   created_time r, error r)) v"
  by (induction v) (auto simp: serializable_forward_def)

lemma serializable_status:
  "map (\<lambda>(k, r). status r) (map (\<lambda>(k, info). (k, serializable_forward info)) v)
     = replicate (length v) ''stopped''"
  by (induction v) (auto simp: serializable_forward_def)

text \<open>
  Claim C2, as the code has it. When the hash of \<open>v\<close> differs from the stored one and
  no file operation raises, \<open>save_forwards\<close> returns \<open>True\<close> and \<open>load_forwards\<close> then
  yields the rules of \<open>v\<close> in their order, each with its \<open>id\<close>, \<open>protocol\<close>,
  \<open>local_port\<close>, \<open>remote_host\<close>, \<open>remote_port\<close>, \<open>created_time\<close> and \<open>error\<close>, and with
  the status \<open>stopped\<close> whatever the status in memory was; a second \<open>save_forwards\<close> of
  the same \<open>v\<close> right after the first returns \<open>True\<close> and leaves the manager and the
  files as they are.
\<close>

theorem save_then_load_forwards:
  assumes "last_forwards_hash pm \<noteq> Some (calculate_hash (forwards_text lib) (md5_hexdigest lib) v)"
  shows "let saved = save_forwards lib pm v now IoOk;
             pm1 = snd saved;
             loaded = fst (load_forwards lib pm1 ReadOk)
         in fst saved = True
            \<and> loaded = map (\<lambda>(k, info). (k, serializable_forward info)) v
            \<and> map (\<lambda>(k, r). (k, forward_id r, protocol r, local_port r, remote_host r,
                              remote_port r, created_time r, error r)) loaded
                = map (\<lambda>(k, r). (k, forward_id r, protocol r, local_port r, remote_host r,
                              remote_port r, created_time r, error r)) v
            \<and> map (\<lambda>(k, r). status r) loaded = replicate (length v) ''stopped''
            \<and> (\<forall>now' io. save_forwards lib pm1 v now' io = (True, pm1))"
proof -
  define pm1 where "pm1 = snd (save_forwards lib pm v now IoOk)"
  have w: "fst (save_forwards lib pm v now IoOk) = True"
    "forwards_file pm1 = Some (now, map (\<lambda>(k, info). (k, serializable_forward info)) v)"
    "last_forwards_hash pm1 = Some (calculate_hash (forwards_text lib) (md5_hexdigest lib) v)"
    using save_forwards_written[OF assms, of now] by (simp_all add: pm1_def)
  have l: "fst (load_forwards lib pm1 ReadOk) = map (\<lambda>(k, info). (k, serializable_forward info)) v"
    by (simp add: load_forwards_def w(2))
  have again: "\<forall>now' io. save_forwards lib pm1 v now' io = (True, pm1)"
    by (simp add: save_forwards_same_hash w(3))
  have same: "map (\<lambda>(k, r). (k, forward_id r, protocol r, local_port r, remote_host r,
                              remote_port r, created_time r, error r))
                (fst (load_forwards lib pm1 ReadOk))
                = map (\<lambda>(k, r). (k, forward_id r, protocol r, local_port r, remote_host r,
                              remote_port r, created_time r, error r)) v"
    by (simp only: l serializable_fields)
  have stopped: "map (\<lambda>(k, r). status r) (fst (load_forwards lib pm1 ReadOk))
                = replicate (length v) ''stopped''"
    by (simp only: l serializable_status)
  show ?thesis
    unfolding Let_def pm1_def[symmetric]
    by (intro conjI) (fact w(1) l same stopped again)+
qed

theorem save_then_load_forwards_witness:
  "last_forwards_hash (new_persistence_manager None None []) = None
   \<and> fst (load_forwards example_library
            (snd (save_forwards example_library (new_persistence_manager None None [])
                    [(''r1'', example_rule)] 100 IoOk)) ReadOk)
       = [(''r1'', example_rule\<lparr>status := ''stopped'', thread := None, server := None\<rparr>)]"
proof -
  have h: "last_forwards_hash (new_persistence_manager None None [])
      \<noteq> Some (calculate_hash (forwards_text example_library) (md5_hexdigest example_library)
                 [(''r1'', example_rule)])"
    by (simp add: new_persistence_manager_def)
  show ?thesis
    using save_then_load_forwards[OF h, of 100]
    by (simp add: Let_def new_persistence_manager_def serializable_forward_def example_rule_def)
qed

text \<open>
  The claim as stated fails on the status: a running rule is read back as stopped.
\<close>

theorem save_then_load_forwards_status_counterexample:
  "map (\<lambda>(k, r). status r) [(''r1'', example_rule)] = [''running'']
   \<and> fst (save_forwards example_library (new_persistence_manager None None [])
            [(''r1'', example_rule)] 100 IoOk) = True
   \<and> map (\<lambda>(k, r). status r)
        (fst (load_forwards example_library
               (snd (save_forwards example_library (new_persistence_manager None None [])
                       [(''r1'', example_rule)] 100 IoOk)) ReadOk)) = [''stopped'']
   \<and> fst (load_forwards example_library
            (snd (save_forwards example_library (new_persistence_manager None None [])
                    [(''r1'', example_rule)] 100 IoOk)) ReadOk)
       \<noteq> [(''r1'', example_rule\<lparr>thread := None, server := None, socket := None\<rparr>)]"
  by (simp add: save_forwards_def check_forwards_changed_def load_forwards_def Let_def
        new_persistence_manager_def serializable_forward_def example_rule_def)

section \<open>Backup rotation\<close>

text \<open>
  When every \<open>unlink\<close> succeeds and the names of the directory are distinct, a call
  keeps, of each of the three types, the three files that come first when the type's
  files are sorted by decreasing modification time (ties in the order of the
  directory), and every file that no pattern matches. The parameter does not occur.
\<close>

lemma same_name_iff: "same_name g f \<longleftrightarrow> name_of g = name_of f"
  by (auto simp: same_name_def name_of_def)

lemma unlink_each_all:
  "unlink_each (\<lambda>f. True) fs dir = (True, filter (\<lambda>g. \<forall>f\<in>set fs. \<not> same_name g f) dir)"
proof (induction fs arbitrary: dir)
  case Nil
  then show ?case by simp
next
  case (Cons f fs)
  have "filter (\<lambda>g. \<forall>f'\<in>set fs. \<not> same_name g f') (filter (\<lambda>g. \<not> same_name g f) dir)
      = filter (\<lambda>g. \<forall>f'\<in>set (f # fs). \<not> same_name g f') dir"
    by (auto intro: filter_cong)
  with Cons show ?case by simp
qed

lemma glob_set: "set (glob dir t ''json'' @ glob dir t ''pkl'') = {f \<in> set dir. rotated t f}"
  by (auto simp: glob_def rotated_def)

lemma glob_distinct:
  assumes "distinct dir"
  shows "distinct (glob dir t ''json'' @ glob dir t ''pkl'')"
  using assms by (auto simp: glob_def)

lemma one_type:
  assumes "distinct (map name_of dir)"
  shows "filter (\<lambda>g. \<forall>f\<in>set (drop 3 (sort_key (\<lambda>f. - st_mtime f)
                                   (glob dir t ''json'' @ glob dir t ''pkl''))). \<not> same_name g f) dir
         = filter (\<lambda>g. rotated t g \<longrightarrow> g \<in> set (newest_three dir t)) dir"
proof (rule filter_cong[OF refl])
  fix g assume g: "g \<in> set dir"
  let ?S = "sort_key (\<lambda>f. - st_mtime f) (glob dir t ''json'' @ glob dir t ''pkl'')"
  have inj: "inj_on name_of (set dir)" and d: "distinct dir"
    using assms by (simp_all add: distinct_map)
  have setS: "set ?S = {f \<in> set dir. rotated t f}"
    by (simp only: set_sort glob_set)
  have dS: "distinct ?S"
    using glob_distinct[OF d, of t] by (simp only: distinct_sort)
  have split: "set ?S = set (take 3 ?S) \<union> set (drop 3 ?S)"
    by (metis append_take_drop_id set_append)
  have disj: "set (take 3 ?S) \<inter> set (drop 3 ?S) = {}"
    using dS by (metis append_take_drop_id distinct_append)
  have sub: "set (drop 3 ?S) \<subseteq> set dir"
    using setS split by blast
  have "(\<forall>f\<in>set (drop 3 ?S). \<not> same_name g f) \<longleftrightarrow> g \<notin> set (drop 3 ?S)"
    using g sub inj by (auto simp: same_name_iff inj_on_def)
  also have "\<dots> \<longleftrightarrow> (rotated t g \<longrightarrow> g \<in> set (take 3 ?S))"
    using g setS split disj by blast
  finally show "(\<forall>f\<in>set (drop 3 ?S). \<not> same_name g f)
      \<longleftrightarrow> (rotated t g \<longrightarrow> g \<in> set (newest_three dir t))"
    by (simp only: newest_three_def)
qed

lemma glob_other_type:
  assumes "t' \<noteq> t"
  shows "glob (filter (\<lambda>g. rotated t g \<longrightarrow> P g) dir) t' sfx = glob dir t' sfx"
  using assms by (auto simp: glob_def rotated_def intro: filter_cong)

lemma cleanup_types_all:
  assumes "distinct (map name_of dir)" and "distinct ts"
  shows "cleanup_types (\<lambda>f. True) ts dir
         = filter (\<lambda>g. \<forall>t\<in>set ts. rotated t g \<longrightarrow> g \<in> set (newest_three dir t)) dir"
  using assms
proof (induction ts arbitrary: dir)
  case Nil
  then show ?case by simp
next
  case (Cons t ts)
  let ?dir' = "filter (\<lambda>g. rotated t g \<longrightarrow> g \<in> set (newest_three dir t)) dir"
  have d': "distinct (map name_of ?dir')"
    using Cons.prems(1) by (simp add: distinct_map_filter)
  have same: "newest_three ?dir' t' = newest_three dir t'" if "t' \<in> set ts" for t'
  proof -
    from that Cons.prems(2) have "t' \<noteq> t" by auto
    then have "glob ?dir' t' sfx = glob dir t' sfx" for sfx
      by (rule glob_other_type)
    then show ?thesis
      by (simp only: newest_three_def[of ?dir' t'] newest_three_def[of dir t'])
  qed
  have "cleanup_types (\<lambda>f. True) (t # ts) dir = cleanup_types (\<lambda>f. True) ts ?dir'"
    by (simp add: Let_def unlink_each_all one_type[OF Cons.prems(1)])
  also have "\<dots> = filter (\<lambda>g. \<forall>t'\<in>set ts. rotated t' g \<longrightarrow> g \<in> set (newest_three ?dir' t')) ?dir'"
    using Cons.IH[OF d'] Cons.prems(2) by simp
  also have "\<dots> = filter (\<lambda>g. \<forall>t'\<in>set ts. rotated t' g \<longrightarrow> g \<in> set (newest_three dir t')) ?dir'"
    by (rule filter_cong[OF refl]) (simp add: same)
  also have "\<dots> = filter (\<lambda>g. \<forall>t'\<in>set (t # ts). rotated t' g \<longrightarrow> g \<in> set (newest_three dir t')) dir"
    by (auto intro: filter_cong)
  finally show ?case .
qed

lemma cleanup_old_backups_keeps_three_newest:
  assumes "distinct (map name_of (backup_dir pm))"
  shows "backup_dir (cleanup_old_backups pm max_backups (\<lambda>f. True))
         = filter (\<lambda>g. \<forall>t\<in>{''forwards_backup'', ''stats_backup'', ''security_backup''}.
                          rotated t g \<longrightarrow> g \<in> set (newest_three (backup_dir pm) t))
             (backup_dir pm)"
  using cleanup_types_all[OF assms, of "[''forwards_backup'', ''stats_backup'', ''security_backup'']"]
  by (simp add: cleanup_old_backups_def)

text \<open>
  Claim C6. \<open>cleanup_old_backups\<close> does not read its parameter \<open>max_backups\<close>: every
  call keeps three files of a type, as the call with 3 does. Asked to keep one file,
  it keeps both of two backups; asked to keep five, it deletes the oldest of four.
\<close>

theorem cleanup_old_backups_ignores_max_backups:
  "cleanup_old_backups pm max_backups can_unlink = cleanup_old_backups pm 3 can_unlink
   \<and> backup_dir (cleanup_old_backups
        (new_persistence_manager None None
           [\<lparr>backup_type = ''forwards_backup'', stamp = 100, suffix = ''json'', st_mtime = 90\<rparr>,
            \<lparr>backup_type = ''forwards_backup'', stamp = 200, suffix = ''json'', st_mtime = 190\<rparr>])
        1 (\<lambda>f. True))
     = [\<lparr>backup_type = ''forwards_backup'', stamp = 100, suffix = ''json'', st_mtime = 90\<rparr>,
        \<lparr>backup_type = ''forwards_backup'', stamp = 200, suffix = ''json'', st_mtime = 190\<rparr>]
   \<and> backup_dir (cleanup_old_backups
        (new_persistence_manager None None
           [\<lparr>backup_type = ''forwards_backup'', stamp = 100, suffix = ''json'', st_mtime = 90\<rparr>,
            \<lparr>backup_type = ''forwards_backup'', stamp = 200, suffix = ''json'', st_mtime = 190\<rparr>,
            \<lparr>backup_type = ''forwards_backup'', stamp = 300, suffix = ''json'', st_mtime = 290\<rparr>,
            \<lparr>backup_type = ''forwards_backup'', stamp = 400, suffix = ''json'', st_mtime = 390\<rparr>])
        5 (\<lambda>f. True))
     = [\<lparr>backup_type = ''forwards_backup'', stamp = 200, suffix = ''json'', st_mtime = 190\<rparr>,
        \<lparr>backup_type = ''forwards_backup'', stamp = 300, suffix = ''json'', st_mtime = 290\<rparr>,
        \<lparr>backup_type = ''forwards_backup'', stamp = 400, suffix = ''json'', st_mtime = 390\<rparr>]"
  by (simp add: cleanup_old_backups_def new_persistence_manager_def glob_def same_name_def)

section \<open>Starting and stopping a rule\<close>

lemma map_of_modify:
  "map_of (modify k f fs) k' = (if k' = k then map_option f (map_of fs k) else map_of fs k')"
  by (induction fs) (auto simp: modify_def)

lemma map_of_worker_step_other:
  "map_of (worker_step fid ev fs) k = None \<longleftrightarrow> map_of fs k = None"
  by (cases ev) (simp_all add: map_of_modify)

text \<open>
  Claim C1. \<open>start_forward\<close> returns the rule's identifier and keeps the rule, but
  when the worker has reported its failure to bind before \<open>time.sleep(0.1)\<close> returns
  (\<open>tcp_forward\<close> has set the status \<open>error\<close> and the message), the assignment after
  the sleep overwrites the status: the rule reads \<open>running\<close> with the message still in
  \<open>error\<close>. For UDP a failed \<open>bind\<close> writes nothing, and the rule reads \<open>running\<close>
  with no message.
\<close>

theorem start_forward_running_after_bind_failure:
  "(case start_forward lib (env\<lparr>spawn := Inr th, during_sleep := [TcpForwardError e]\<rparr>)
           (fw, pm) ''tcp'' lport rhost rport of
      (fid, fw', pm') \<Rightarrow>
        fid = uuid4 env
        \<and> map_option status (map_of (active_forwards fw') fid) = Some ''running''
        \<and> map_option error (map_of (active_forwards fw') fid) = Some (Some e))
   \<and> (case start_forward lib (env\<lparr>spawn := Inr th, during_sleep := [UdpBindRaises]\<rparr>)
           (fw, pm) ''udp'' lport rhost rport of
      (fid, fw', pm') \<Rightarrow>
        fid = uuid4 env
        \<and> map_option status (map_of (active_forwards fw') fid) = Some ''running''
        \<and> map_option error (map_of (active_forwards fw') fid) = Some None)"
  by (simp add: start_forward_def Let_def lower_def lower_char_def map_of_modify update_conv')

text \<open>Only a failure reported after \<open>start_forward\<close> has returned leaves the status \<open>error\<close>.\<close>

lemma start_forward_late_bind_failure:
  "(case start_forward lib (env\<lparr>spawn := Inr th, during_sleep := []\<rparr>)
           (fw, pm) ''tcp'' lport rhost rport of
      (fid, fw', pm') \<Rightarrow>
        map_option status (map_of (worker_step fid (TcpForwardError e) (active_forwards fw')) fid)
          = Some ''error''
        \<and> map_option error (map_of (worker_step fid (TcpForwardError e) (active_forwards fw')) fid)
          = Some (Some e))"
  by (simp add: start_forward_def Let_def lower_def lower_char_def map_of_modify update_conv')



section \<open>One live rule per protocol and port\<close>

lemma binding_modify:
  assumes "\<And>info. protocol (f info) = protocol info \<and> local_port (f info) = local_port info"
  shows "map binding (modify k f fs) = map binding fs"
  by (induction fs) (auto simp: modify_def binding_def assms)

lemma binding_worker_step: "map binding (worker_step fid ev fs) = map binding fs"
  by (cases ev) (simp_all add: binding_modify)

lemma binding_fold_worker_step: "map binding (fold (worker_step fid) evs fs) = map binding fs"
  by (induction evs arbitrary: fs) (simp_all add: binding_worker_step)

lemma binding_serializable:
  "map (binding \<circ> (\<lambda>(k, info). (k, serializable_forward info))) fs = map binding fs"
  by (induction fs) (auto simp: binding_def serializable_forward_def)

lemma save_forwards_file_ok:
  assumes "distinct (map binding fs)" and "file_ok pm"
  shows "file_ok (snd (save_forwards lib pm fs now io))"
  using assms
  by (auto simp: save_forwards_def check_forwards_changed_def file_ok_def Let_def
        binding_serializable split: option.splits)

lemma save_stats_forwards_file:
  "forwards_file (snd (save_stats lib pm st now io)) = forwards_file pm"
  by (auto simp: save_stats_def check_stats_changed_def Let_def split: option.splits)

lemma save_data_file_ok:
  assumes "distinct (map binding (active_forwards fw))" and "file_ok pm"
  shows "file_ok (save_data lib env fw pm)"
  using save_forwards_file_ok[OF assms, of lib "clock env" "forwards_io env"]
  by (simp add: save_data_def Let_def file_ok_def save_stats_forwards_file)

lemma binding_update_subset:
  "set (map binding (AList.update k v fs)) \<subseteq> insert (binding (k, v)) (set (map binding fs))"
  by (induction fs) auto

lemma distinct_binding_update:
  assumes "distinct (map binding fs)" and "binding (k, v) \<notin> set (map binding fs)"
  shows "distinct (map binding (AList.update k v fs))"
  using assms
proof (induction fs)
  case Nil
  then show ?case by simp
next
  case (Cons a fs)
  obtain k' v' where a: "a = (k', v')" by (cases a)
  show ?case
  proof (cases "k' = k")
    case True
    with Cons.prems show ?thesis by (simp add: a)
  next
    case False
    have "binding a \<notin> set (map binding (AList.update k v fs))"
      using binding_update_subset[of k v fs] Cons.prems by auto
    with False Cons show ?thesis by (simp add: a)
  qed
qed

lemma distinct_binding_delete:
  "distinct (map binding fs) \<Longrightarrow> distinct (map binding (AList.delete k fs))"
  by (simp add: AList.delete_eq distinct_map_filter)

lemma binding_restore:
  "map binding (map (\<lambda>(k, r). (k, fst r))
       (map (\<lambda>(k, info). (k, restore_one (p k) info)) fs)) = map binding fs"
  by (induction fs)
     (auto simp: binding_def restore_one_def Let_def split: restore_probe.splits)

lemma restore_forwards_ok:
  assumes "distinct (map binding (active_forwards (fst sys)))" and "file_ok (snd sys)"
  shows "distinct (map binding (active_forwards (fst (restore_forwards lib env sys))))
         \<and> file_ok (snd (restore_forwards lib env sys))"
proof -
  let ?fs = "map (\<lambda>(k, r). (k, fst r))
       (map (\<lambda>(k, info). (k, restore_one (probe env k) info)) (active_forwards (fst sys)))"
  have d: "distinct (map binding ?fs)"
    using assms(1) by (simp only: binding_restore)
  have "file_ok (save_data lib (restore_saving env) ((fst sys)\<lparr>active_forwards := ?fs\<rparr>) (snd sys))"
    by (rule save_data_file_ok) (use d assms(2) in simp_all)
  then show ?thesis
    using d assms(2) by (simp add: restore_forwards_def Let_def)
qed

lemma load_forwards_ok:
  assumes "file_ok pm"
  shows "distinct (map binding (fst (load_forwards lib pm io)))
         \<and> file_ok (snd (load_forwards lib pm io))"
  using assms by (auto simp: load_forwards_def file_ok_def split: option.splits)

lemma load_stats_forwards_file:
  "forwards_file (snd (load_stats lib pm now io)) = forwards_file pm"
  by (auto simp: load_stats_def Let_def split: option.splits)

lemma new_port_forwarder_ok:
  assumes "file_ok pm"
  shows "distinct (map binding (active_forwards (fst (new_port_forwarder lib env pm))))
         \<and> file_ok (snd (new_port_forwarder lib env pm))"
proof -
  obtain fs pm1 where lf: "load_forwards lib pm (forwards_read env) = (fs, pm1)"
    by (cases "load_forwards lib pm (forwards_read env)")
  obtain st pm2 where ls: "load_stats lib pm1 (boot_clock env) (stats_read env) = (st, pm2)"
    by (cases "load_stats lib pm1 (boot_clock env) (stats_read env)")
  have 1: "distinct (map binding fs)" and 2: "file_ok pm1"
    using load_forwards_ok[OF assms, of lib "forwards_read env"] lf by simp_all
  have 3: "file_ok pm2"
    using 2 load_stats_forwards_file[of lib pm1 "boot_clock env" "stats_read env"] ls
    by (simp add: file_ok_def)
  show ?thesis
    using restore_forwards_ok[of "(\<lparr>active_forwards = fs, stats = st, running = True\<rparr>, pm2)"
            lib "restoring env"] 1 3
    by (simp add: new_port_forwarder_def lf ls)
qed

lemma start_forward_ok:
  assumes "distinct (map binding (active_forwards (fst sys)))" and "file_ok (snd sys)"
    and "(upper proto, lport) \<notin> set (map binding (active_forwards (fst sys)))"
  shows "distinct (map binding (active_forwards (fst (snd (start_forward lib env sys proto lport rhost rport)))))
         \<and> file_ok (snd (snd (start_forward lib env sys proto lport rhost rport)))"
proof -
  let ?info = "\<lparr>forward_id = uuid4 env, protocol = upper proto, local_port = lport,
             remote_host = rhost, remote_port = rport, status = ''starting'',
             created_time = isoformat env, error = None,
             thread = None, server = None, socket = None\<rparr>"
  let ?fs1 = "AList.update (uuid4 env) ?info (active_forwards (fst sys))"
  have d1: "distinct (map binding ?fs1)"
    by (rule distinct_binding_update) (use assms in \<open>simp_all add: binding_def\<close>)
  have keep: "distinct (map binding fs')" if "map binding fs' = map binding ?fs1" for fs'
    using d1 that by simp
  show ?thesis
    unfolding start_forward_def Let_def
    by (auto split: sum.splits
          intro!: save_data_file_ok keep assms(2)
          simp: binding_modify binding_fold_worker_step)
qed

lemma list_ex_binding:
  "list_ex (\<lambda>(k, forward). local_port forward = lport \<and> protocol forward = p) fs
     \<longleftrightarrow> (p, lport) \<in> set (map binding fs)"
  by (induction fs) (auto simp: binding_def)

lemma api_add_forward_ok:
  assumes "distinct (map binding (active_forwards (fst sys)))" and "file_ok (snd sys)"
  shows "distinct (map binding (active_forwards (fst (snd (api_add_forward lib env sys req)))))
         \<and> file_ok (snd (snd (api_add_forward lib env sys req)))"
proof (cases "add_forward_checks (os_probe env) sys req")
  case (Inl answer)
  then show ?thesis
    using assms by (simp add: api_add_forward_def)
next
  case (Inr args)
  obtain proto lport rhost rport where args: "args = (proto, lport, rhost, rport)"
    by (cases args)
  have free: "(upper proto, lport) \<notin> set (map binding (active_forwards (fst sys)))"
    using Inr unfolding add_forward_checks_def args
    by (auto simp: list_ex_binding split: if_splits option.splits)
  have "snd (add_forward_start lib (starting env) sys args)
      = snd (start_forward lib (starting env) sys proto lport rhost rport)"
    by (auto simp: add_forward_start_def args split: prod.splits option.splits)
  then show ?thesis
    using start_forward_ok[OF assms free, of lib "starting env" rhost rport]
    by (simp add: api_add_forward_def Inr)
qed

lemma api_stop_forward_ok:
  assumes "distinct (map binding (active_forwards (fst sys)))" and "file_ok (snd sys)"
  shows "distinct (map binding (active_forwards (fst (snd (api_stop_forward lib env sys li fid)))))
         \<and> file_ok (snd (snd (api_stop_forward lib env sys li fid)))"
  using assms
  by (auto simp: api_stop_forward_def stop_forward_def Let_def distinct_binding_delete
        intro!: save_data_file_ok split: option.splits prod.splits)

lemma api_check_changes_ok:
  assumes "distinct (map binding (active_forwards (fst sys)))" and "file_ok (snd sys)"
  shows "distinct (map binding (active_forwards (fst (snd (api_check_changes lib sys sm li)))))
         \<and> file_ok (snd (snd (api_check_changes lib sys sm li)))"
  using assms
  by (auto simp: api_check_changes_def check_forwards_changed_def check_stats_changed_def
        check_security_changed_def Let_def file_ok_def split: prod.splits)

lemma restart_ok:
  assumes "distinct (map binding (active_forwards (fst sys)))" and "file_ok (snd sys)"
  shows "distinct (map binding (active_forwards (fst (restart lib final env sys))))
         \<and> file_ok (snd (restart lib final env sys))"
proof -
  let ?pm1 = "case final of None \<Rightarrow> snd sys | Some senv \<Rightarrow> save_data lib senv (fst sys) (snd sys)"
  have "file_ok ?pm1"
    using assms by (auto split: option.splits intro: save_data_file_ok)
  then have "file_ok (new_persistence_manager (forwards_file ?pm1) (stats_file ?pm1) (backup_dir ?pm1))"
    by (simp add: file_ok_def new_persistence_manager_def)
  then show ?thesis
    unfolding restart_def Let_def by (rule new_port_forwarder_ok)
qed

text \<open>
  A request whose two steps follow each other is one call of \<open>api_add_forward\<close>.
\<close>

lemma checks_then_start:
  "step lib (AddForwardStart request env) (step lib (AddForwardChecks request probed req) (sys, []))
     = (snd (api_add_forward lib \<lparr>os_probe = probed, starting = env\<rparr> sys req), [])"
  by (cases "add_forward_checks probed sys req") (simp_all add: api_add_forward_def)

lemma uninterrupted_ok:
  assumes "uninterrupted ops"
    and "distinct (map binding (active_forwards (fst sys)))" and "file_ok (snd sys)"
  shows "distinct (map binding (active_forwards (fst (fst (fold (step lib) ops (sys, []))))))
         \<and> file_ok (snd (fst (fold (step lib) ops (sys, []))))
         \<and> snd (fold (step lib) ops (sys, [])) = []"
  using assms
proof (induction "length ops" arbitrary: ops sys rule: less_induct)
  case less
  note ok = less.prems(2,3)
  have continue: ?case
    if "fold (step lib) ops (sys, []) = fold (step lib) rest (sys', [])"
      and "length rest < length ops" and "uninterrupted rest"
      and "distinct (map binding (active_forwards (fst sys'))) \<and> file_ok (snd sys')"
    for rest sys'
    using less.hyps[OF that(2,3), of sys'] that(1,4) by simp
  show ?case
  proof (cases ops)
    case Nil
    then show ?thesis using ok by simp
  next
    case (Cons op rest)
    have shorter: "length rest < length ops"
      by (simp add: Cons)
    show ?thesis
    proof (cases op)
      case (AddForwardChecks request probed req)
      with Cons less.prems(1) obtain env rest' where
        rest: "rest = AddForwardStart request env # rest'" and u: "uninterrupted rest'"
        by (cases rest; cases "hd rest") auto
      let ?sys' = "snd (api_add_forward lib \<lparr>os_probe = probed, starting = env\<rparr> sys req)"
      have f: "fold (step lib) ops (sys, []) = fold (step lib) rest' (?sys', [])"
        using checks_then_start[of lib request env probed req sys]
        by (simp add: Cons AddForwardChecks rest)
      have l: "length rest' < length ops"
        by (simp add: Cons rest)
      show ?thesis
        by (rule continue[OF f l u api_add_forward_ok[OF ok]])
    next
      case (AddForwardStart request env)
      with Cons less.prems(1) show ?thesis by simp
    next
      case (StopForward env li fid)
      have f: "fold (step lib) ops (sys, [])
          = fold (step lib) rest (snd (api_stop_forward lib env sys li fid), [])"
        by (simp add: Cons StopForward)
      have u: "uninterrupted rest"
        using less.prems(1) by (simp add: Cons StopForward)
      show ?thesis
        by (rule continue[OF f shorter u api_stop_forward_ok[OF ok]])
    next
      case (CheckChanges sm li)
      have f: "fold (step lib) ops (sys, [])
          = fold (step lib) rest (snd (api_check_changes lib sys sm li), [])"
        by (simp add: Cons CheckChanges)
      have u: "uninterrupted rest"
        using less.prems(1) by (simp add: Cons CheckChanges)
      show ?thesis
        by (rule continue[OF f shorter u api_check_changes_ok[OF ok]])
    next
      case (Restart final env)
      have f: "fold (step lib) ops (sys, []) = fold (step lib) rest (restart lib final env sys, [])"
        by (simp add: Cons Restart)
      have u: "uninterrupted rest"
        using less.prems(1) by (simp add: Cons Restart)
      show ?thesis
        by (rule continue[OF f shorter u restart_ok[OF ok]])
    next
      case (WorkerReport fid ev)
      let ?sys' = "((fst sys)\<lparr>active_forwards := worker_step fid ev (active_forwards (fst sys))\<rparr>,
                    snd sys)"
      have f: "fold (step lib) ops (sys, []) = fold (step lib) rest (?sys', [])"
        by (cases sys) (simp add: Cons WorkerReport)
      have u: "uninterrupted rest"
        using less.prems(1) by (simp add: Cons WorkerReport)
      have i: "distinct (map binding (active_forwards (fst ?sys'))) \<and> file_ok (snd ?sys')"
        using ok by (simp add: binding_worker_step)
      show ?thesis
        by (rule continue[OF f shorter u i])
    qed
  qed
qed

text \<open>
  When every handler runs to its end before the next step, from the first start on
  an empty data directory: no two rules of the registry share a protocol and local
  port, so no two live rules do.
\<close>

lemma one_live_rule_per_port_uninterrupted:
  assumes "uninterrupted ops"
  shows "one_live_rule_per_port (active_forwards (fst (fst (run lib env ops))))"
proof -
  have "file_ok (new_persistence_manager None None [])"
    by (simp add: file_ok_def new_persistence_manager_def)
  then have "distinct (map binding (active_forwards (fst (fst (first_start lib env)))))
      \<and> file_ok (snd (fst (first_start lib env)))"
    unfolding first_start_def fst_conv by (rule new_port_forwarder_ok)
  then have "distinct (map binding (active_forwards (fst (fst (run lib env ops)))))"
    using uninterrupted_ok[OF assms, of "fst (first_start lib env)" lib]
    by (simp add: run_def first_start_def)
  then show ?thesis
    by (simp add: one_live_rule_per_port_def distinct_map_filter)
qed

lemma first_start_example:
  "first_start example_library example_boot_env
     = ((\<lparr>active_forwards = [], stats = default_stats 50, running = True\<rparr>,
         new_persistence_manager None None []), [])"
  by (simp add: first_start_def new_port_forwarder_def load_forwards_def load_stats_def
        new_persistence_manager_def restore_forwards_def example_boot_env_def Let_def)

text \<open>The second of two requests for one port, made after the first has ended, is refused.\<close>

lemma second_request_refused:
  "add_forward_checks NotConnected
     (fst (run example_library example_boot_env
             [AddForwardChecks 1 NotConnected example_request,
              AddForwardStart 1 (starting (example_add_env ''r1''))]))
     example_request = Inl (Failure (PortOccupied 8080))"
  by (simp add: run_def first_start_example add_forward_checks_def add_forward_start_def
        example_request_def example_add_env_def start_forward_def Let_def upper_def
        upper_char_def lower_def lower_char_def modify_def split: prod.splits)

text \<open>
  Claim C5. Two requests to add a rule for TCP port 8080 are answered on two threads.
  Both run their checks before either calls \<open>start_forward\<close>: each finds the registry
  without a rule for the port and nothing listening on it. The first then starts its
  rule and binds the port. The second starts its rule too; its worker fails to bind
  and reports the failure during the sleep of \<open>start_forward\<close>, which then sets the
  status \<open>running\<close>. The registry holds two rules for TCP 8080, both \<open>running\<close>, and
  both requests are answered with success: the invariant does not hold.
\<close>

theorem two_concurrent_adds_share_a_port:
  "map (\<lambda>(k, info). (k, protocol info, local_port info, status info))
     (active_forwards (fst (fst (run example_library example_boot_env
        [AddForwardChecks 1 NotConnected example_request,
         AddForwardChecks 2 NotConnected example_request,
         AddForwardStart 1 (starting (example_add_env ''r1'')),
         AddForwardStart 2 ((starting (example_add_env ''r2''))
            \<lparr>spawn := Inr 3,
                during_sleep := [TcpForwardError ''[Errno 98] address already in use'']\<rparr>)]))))
     = [(''r1'', ''TCP'', 8080, ''running''), (''r2'', ''TCP'', 8080, ''running'')]
   \<and> \<not> one_live_rule_per_port
        (active_forwards (fst (fst (run example_library example_boot_env
          [AddForwardChecks 1 NotConnected example_request,
           AddForwardChecks 2 NotConnected example_request,
           AddForwardStart 1 (starting (example_add_env ''r1'')),
           AddForwardStart 2 ((starting (example_add_env ''r2''))
              \<lparr>spawn := Inr 3,
                during_sleep := [TcpForwardError ''[Errno 98] address already in use'']\<rparr>)]))))
   \<and> fst (add_forward_start example_library
            ((starting (example_add_env ''r2''))
               \<lparr>spawn := Inr 3,
                during_sleep := [TcpForwardError ''[Errno 98] address already in use'']\<rparr>)
            (fst (run example_library example_boot_env
               [AddForwardChecks 1 NotConnected example_request,
                AddForwardChecks 2 NotConnected example_request,
                AddForwardStart 1 (starting (example_add_env ''r1''))]))
            (''tcp'', 8080, ''10.0.0.2'', 80)) = Success ''r2''"
  by (simp add: run_def first_start_example add_forward_checks_def add_forward_start_def
        example_request_def example_add_env_def start_forward_def Let_def upper_def
        upper_char_def lower_def lower_char_def modify_def one_live_rule_per_port_def
        live_def binding_def split: prod.splits)

end
